theory Spec2Isabelle
  imports Main "HOL-Library.Word" "HOL-Library.AList"
begin

section \<open>Data model of the wallet (package \<^verbatim>\<open>types\<close> and \<^verbatim>\<open>modules\<close>)\<close>

text \<open>
  The wallet's update code (\<^verbatim>\<open>modules/wallet/update.go\<close>) works on values of the
  packages \<^verbatim>\<open>types\<close> and \<^verbatim>\<open>modules\<close>. Hashes (unlock hashes, transaction, block and
  output identifiers) are 32-byte values and are kept opaque as natural numbers;
  a \<^verbatim>\<open>Currency\<close> is a non-negative big integer; block heights and timestamps are
  \<^verbatim>\<open>uint64\<close>.
\<close>

type_synonym UnlockHash = nat
type_synonym Hash = nat
type_synonym Currency = nat
type_synonym BlockHeight = "64 word"
type_synonym Timestamp = "64 word"
type_synonym error = string

text \<open>
  \<^verbatim>\<open>UnlockConditions.UnlockHash()\<close> is a pure function of the unlock conditions; the
  conditions are represented by the hash they commit to.
\<close>

record UnlockConditions =
  UnlockHash :: UnlockHash

record SiacoinOutput =
  scoValue :: Currency
  scoUnlockHash :: UnlockHash

record SiafundOutput =
  sfoValue :: Currency
  sfoUnlockHash :: UnlockHash
  sfoClaimStart :: Currency

record SiacoinInput =
  sciParentID :: Hash
  sciUnlockConditions :: UnlockConditions

record SiafundInput =
  sfiParentID :: Hash
  sfiUnlockConditions :: UnlockConditions
  sfiClaimUnlockHash :: UnlockHash

record Transaction =
  SiacoinInputs :: "SiacoinInput list"
  SiacoinOutputs :: "SiacoinOutput list"
  SiafundInputs :: "SiafundInput list"
  SiafundOutputs :: "SiafundOutput list"
  MinerFees :: "Currency list"

record Block =
  Timestamp :: Timestamp
  MinerPayouts :: "SiacoinOutput list"
  Transactions :: "Transaction list"

text \<open>
  The identifier functions and the constant \<^verbatim>\<open>MaturityDelay\<close> belong to package
  \<^verbatim>\<open>types\<close>, which is not part of the wallet; they are taken as a parameter \<open>T\<close>:
  \<open>TransactionID T txn\<close> is \<^verbatim>\<open>txn.ID()\<close>, \<open>SiacoinOutputID T txn i\<close> is
  \<^verbatim>\<open>txn.SiacoinOutputID(i)\<close>, \<open>BlockID T b\<close> is \<^verbatim>\<open>b.ID()\<close>, and so on.
\<close>

record types =
  TransactionID :: "Transaction \<Rightarrow> Hash"
  SiacoinOutputID :: "Transaction \<Rightarrow> nat \<Rightarrow> Hash"
  SiafundOutputID :: "Transaction \<Rightarrow> nat \<Rightarrow> Hash"
  BlockID :: "Block \<Rightarrow> Hash"
  MinerPayoutID :: "Block \<Rightarrow> nat \<Rightarrow> Hash"
  MaturityDelay :: BlockHeight

datatype DiffDirection = DiffApply | DiffRevert

record SiacoinOutputDiff =
  scodDirection :: DiffDirection
  scodID :: Hash
  scodSiacoinOutput :: SiacoinOutput

record SiafundOutputDiff =
  sfodDirection :: DiffDirection
  sfodID :: Hash
  sfodSiafundOutput :: SiafundOutput

record SiafundPoolDiff =
  sfpdDirection :: DiffDirection
  sfpdPrevious :: Currency
  sfpdAdjusted :: Currency

record ConsensusChange =
  RevertedBlocks :: "Block list"
  AppliedBlocks :: "Block list"
  SiacoinOutputDiffs :: "SiacoinOutputDiff list"
  SiafundOutputDiffs :: "SiafundOutputDiff list"
  SiafundPoolDiffs :: "SiafundPoolDiff list"

datatype Specifier =
    SpecifierMinerPayout
  | SpecifierSiacoinInput
  | SpecifierSiacoinOutput
  | SpecifierSiafundInput
  | SpecifierSiafundOutput
  | SpecifierClaimOutput
  | SpecifierMinerFee

record ProcessedInput =
  piFundType :: Specifier
  piWalletAddress :: bool
  piRelatedAddress :: UnlockHash
  piValue :: Currency

record ProcessedOutput =
  poFundType :: Specifier
  poMaturityHeight :: BlockHeight
  poWalletAddress :: bool
  poRelatedAddress :: UnlockHash
  poValue :: Currency

record ProcessedTransaction =
  ptTransaction :: Transaction
  ptTransactionID :: Hash
  ptConfirmationHeight :: BlockHeight
  ptConfirmationTimestamp :: Timestamp
  ptInputs :: "ProcessedInput list"
  ptOutputs :: "ProcessedOutput list"

text \<open>The zero value \<^verbatim>\<open>types.Transaction{}\<close>.\<close>

definition emptyTransaction :: Transaction where
  "emptyTransaction =
     \<lparr>SiacoinInputs = [], SiacoinOutputs = [], SiafundInputs = [],
      SiafundOutputs = [], MinerFees = []\<rparr>"

section \<open>Wallet state\<close>

text \<open>
  The in-memory state of the wallet. \<open>processedTransactionMap\<close> maps a transaction
  id to a pointer into the slice \<open>processedTransactions\<close>; the pointer is the index
  of the element. \<open>tgStopped\<close> says that the thread group has been stopped
  (\<^verbatim>\<open>w.tg.Add()\<close> fails), \<open>walletLog\<close> holds the lines printed to \<^verbatim>\<open>w.log\<close>.
\<close>

record Wallet =
  keys :: "UnlockHash \<rightharpoonup> nat"
  processedTransactions :: "ProcessedTransaction list"
  processedTransactionMap :: "Hash \<rightharpoonup> nat"
  unconfirmedProcessedTransactions :: "ProcessedTransaction list"
  siafundPool :: Currency
  consensusSetHeight :: BlockHeight
  tgStopped :: bool
  walletLog :: "string list"

text \<open>
  The persistent state: the four buckets of the wallet database. A write
  transaction works on a copy of this record; \<open>kvFault\<close> is the storage
  environment, saying for which bucket and key a put or delete fails.
\<close>

datatype Bucket =
  BSiacoinOutputs | BSiafundOutputs | BHistoricOutputs | BHistoricClaimStarts

record DB =
  bucketSiacoinOutputs :: "Hash \<rightharpoonup> SiacoinOutput"
  bucketSiafundOutputs :: "Hash \<rightharpoonup> SiafundOutput"
  bucketHistoricOutputs :: "Hash \<rightharpoonup> Currency"
  bucketHistoricClaimStarts :: "Hash \<rightharpoonup> Currency"
  kvFault :: "Bucket \<Rightarrow> Hash \<Rightarrow> bool"

subsection \<open>Database helpers\<close>

text \<open>
  Modelled from the spec: the typed bucket helpers \<^verbatim>\<open>dbPut...\<close>, \<^verbatim>\<open>dbGet...\<close> and
  \<^verbatim>\<open>dbDelete...\<close> of the persistence layer, whose source is not in the wallet's
  update code. From sections 4.A and 7 of the specification: \<open>put\<close>, \<open>get\<close> and
  \<open>delete\<close> act on one bucket and return an error value; a put or delete fails
  with an IO error of the underlying storage, a get fails when the bucket misses
  the key.
\<close>

definition errIO :: error where
  "errIO = ''storage error''"

definition errNoKey :: error where
  "errNoKey = ''key does not exist''"

definition dbPutSiacoinOutput :: "DB \<Rightarrow> Hash \<Rightarrow> SiacoinOutput \<Rightarrow> error + DB" where
  "dbPutSiacoinOutput tx id' out =
     (if kvFault tx BSiacoinOutputs id' then Inl errIO
      else Inr (tx\<lparr>bucketSiacoinOutputs := (bucketSiacoinOutputs tx)(id' \<mapsto> out)\<rparr>))"

definition dbDeleteSiacoinOutput :: "DB \<Rightarrow> Hash \<Rightarrow> error + DB" where
  "dbDeleteSiacoinOutput tx id' =
     (if kvFault tx BSiacoinOutputs id' then Inl errIO
      else Inr (tx\<lparr>bucketSiacoinOutputs := (bucketSiacoinOutputs tx)(id' := None)\<rparr>))"

definition dbPutSiafundOutput :: "DB \<Rightarrow> Hash \<Rightarrow> SiafundOutput \<Rightarrow> error + DB" where
  "dbPutSiafundOutput tx id' out =
     (if kvFault tx BSiafundOutputs id' then Inl errIO
      else Inr (tx\<lparr>bucketSiafundOutputs := (bucketSiafundOutputs tx)(id' \<mapsto> out)\<rparr>))"

definition dbDeleteSiafundOutput :: "DB \<Rightarrow> Hash \<Rightarrow> error + DB" where
  "dbDeleteSiafundOutput tx id' =
     (if kvFault tx BSiafundOutputs id' then Inl errIO
      else Inr (tx\<lparr>bucketSiafundOutputs := (bucketSiafundOutputs tx)(id' := None)\<rparr>))"

definition dbPutHistoricOutput :: "DB \<Rightarrow> Hash \<Rightarrow> Currency \<Rightarrow> error + DB" where
  "dbPutHistoricOutput tx id' c =
     (if kvFault tx BHistoricOutputs id' then Inl errIO
      else Inr (tx\<lparr>bucketHistoricOutputs := (bucketHistoricOutputs tx)(id' \<mapsto> c)\<rparr>))"

definition dbGetHistoricOutput :: "DB \<Rightarrow> Hash \<Rightarrow> error + Currency" where
  "dbGetHistoricOutput tx id' =
     (case bucketHistoricOutputs tx id' of None \<Rightarrow> Inl errNoKey | Some c \<Rightarrow> Inr c)"

definition dbPutHistoricClaimStart :: "DB \<Rightarrow> Hash \<Rightarrow> Currency \<Rightarrow> error + DB" where
  "dbPutHistoricClaimStart tx id' c =
     (if kvFault tx BHistoricClaimStarts id' then Inl errIO
      else Inr (tx\<lparr>bucketHistoricClaimStarts := (bucketHistoricClaimStarts tx)(id' \<mapsto> c)\<rparr>))"

definition dbGetHistoricClaimStart :: "DB \<Rightarrow> Hash \<Rightarrow> error + Currency" where
  "dbGetHistoricClaimStart tx id' =
     (case bucketHistoricClaimStarts tx id' of None \<Rightarrow> Inl errNoKey | Some c \<Rightarrow> Inr c)"

text \<open>
  Modelled from the spec: \<^verbatim>\<open>Currency.Sub\<close> and \<^verbatim>\<open>Currency.Mul\<close> of package
  \<^verbatim>\<open>types\<close>. Section 9: values are arbitrary-precision non-negative integers,
  with saturating arithmetic on underflow.
\<close>

definition Sub :: "Currency \<Rightarrow> Currency \<Rightarrow> Currency" where
  "Sub x y = x - y"

definition Mul :: "Currency \<Rightarrow> Currency \<Rightarrow> Currency" where
  "Mul x y = x * y"

section \<open>The confirmed-set updater\<close>

definition isWalletAddress :: "Wallet \<Rightarrow> UnlockHash \<Rightarrow> bool" where
  "isWalletAddress w uh = (keys w uh \<noteq> None)"

text \<open>The three loops of \<^verbatim>\<open>updateConfirmedSet\<close>, in the order of the source.\<close>

fun updateSiacoinOutputs :: "Wallet \<Rightarrow> DB \<Rightarrow> SiacoinOutputDiff list \<Rightarrow> error + DB" where
  "updateSiacoinOutputs w tx [] = Inr tx"
| "updateSiacoinOutputs w tx (diff # diffs) =
     (if \<not> isWalletAddress w (scoUnlockHash (scodSiacoinOutput diff))
      then updateSiacoinOutputs w tx diffs
      else
        (case (if scodDirection diff = DiffApply
               then dbPutSiacoinOutput tx (scodID diff) (scodSiacoinOutput diff)
               else dbDeleteSiacoinOutput tx (scodID diff)) of
           Inl err \<Rightarrow> Inl err
         | Inr tx' \<Rightarrow> updateSiacoinOutputs w tx' diffs))"

fun updateSiafundOutputs :: "Wallet \<Rightarrow> DB \<Rightarrow> SiafundOutputDiff list \<Rightarrow> error + DB" where
  "updateSiafundOutputs w tx [] = Inr tx"
| "updateSiafundOutputs w tx (diff # diffs) =
     (if \<not> isWalletAddress w (sfoUnlockHash (sfodSiafundOutput diff))
      then updateSiafundOutputs w tx diffs
      else
        (case (if sfodDirection diff = DiffApply
               then dbPutSiafundOutput tx (sfodID diff) (sfodSiafundOutput diff)
               else dbDeleteSiafundOutput tx (sfodID diff)) of
           Inl err \<Rightarrow> Inl err
         | Inr tx' \<Rightarrow> updateSiafundOutputs w tx' diffs))"

fun updateSiafundPool :: "Wallet \<Rightarrow> SiafundPoolDiff list \<Rightarrow> Wallet" where
  "updateSiafundPool w [] = w"
| "updateSiafundPool w (diff # diffs) =
     updateSiafundPool
       (if sfpdDirection diff = DiffApply
        then w\<lparr>siafundPool := sfpdAdjusted diff\<rparr>
        else w\<lparr>siafundPool := sfpdPrevious diff\<rparr>) diffs"

text \<open>
  A function of the wallet that takes the write transaction returns the wallet as
  it is in memory when the function returns, together with the error or the
  transaction's new contents.
\<close>

definition updateConfirmedSet :: "Wallet \<Rightarrow> DB \<Rightarrow> ConsensusChange \<Rightarrow> Wallet \<times> (error + DB)" where
  "updateConfirmedSet w tx cc =
     (case updateSiacoinOutputs w tx (SiacoinOutputDiffs cc) of
        Inl err \<Rightarrow> (w, Inl err)
      | Inr tx1 \<Rightarrow>
          (case updateSiafundOutputs w tx1 (SiafundOutputDiffs cc) of
             Inl err \<Rightarrow> (w, Inl err)
           | Inr tx2 \<Rightarrow> (updateSiafundPool w (SiafundPoolDiffs cc), Inr tx2)))"

section \<open>The history engine\<close>

text \<open>
  Slicing \<^verbatim>\<open>s[:len(s)-1]\<close> on an empty slice is a run-time panic of Go
  (slice bounds out of range); a panic is a result of its own.
\<close>

datatype panic = SliceBoundsOutOfRange

subsection \<open>\<^verbatim>\<open>revertHistory\<close>\<close>

text \<open>The body of the inner loop over the transactions of a reverted block.\<close>

definition revertTransaction :: "types \<Rightarrow> Wallet \<Rightarrow> Transaction \<Rightarrow> Wallet" where
  "revertTransaction T w txn =
     (let txid = TransactionID T txn in
      if length (processedTransactions w) > 0
         \<and> txid = ptTransactionID (last (processedTransactions w))
      then w\<lparr>processedTransactions := butlast (processedTransactions w),
             processedTransactionMap := (processedTransactionMap w)(txid := None)\<rparr>
      else w)"

text \<open>
  The loop \<^verbatim>\<open>for i := len(block.Transactions) - 1; i >= 0; i--\<close> runs over the
  transactions from the last to the first: \<open>revertTransactions\<close> is called on the
  reversed list.
\<close>

fun revertTransactions :: "types \<Rightarrow> Wallet \<Rightarrow> Transaction list \<Rightarrow> Wallet" where
  "revertTransactions T w [] = w"
| "revertTransactions T w (txn # txns) = revertTransactions T (revertTransaction T w txn) txns"

text \<open>The loop over the miner payouts, which stops at the first wallet address.\<close>

fun revertMinerPayout :: "types \<Rightarrow> Wallet \<Rightarrow> Block \<Rightarrow> SiacoinOutput list \<Rightarrow> panic + Wallet" where
  "revertMinerPayout T w block [] = Inr w"
| "revertMinerPayout T w block (mp # mps) =
     (if isWalletAddress w (scoUnlockHash mp)
      then (if length (processedTransactions w) = 0 then Inl SliceBoundsOutOfRange
            else Inr (w\<lparr>processedTransactions := butlast (processedTransactions w),
                        processedTransactionMap :=
                          (processedTransactionMap w)(BlockID T block := None)\<rparr>))
      else revertMinerPayout T w block mps)"

definition revertBlock :: "types \<Rightarrow> Wallet \<Rightarrow> Block \<Rightarrow> panic + Wallet" where
  "revertBlock T w block =
     (case revertMinerPayout T (revertTransactions T w (rev (Transactions block)))
             block (MinerPayouts block) of
        Inl p \<Rightarrow> Inl p
      | Inr w' \<Rightarrow> Inr (w'\<lparr>consensusSetHeight := consensusSetHeight w' - 1\<rparr>))"

fun revertBlocks :: "types \<Rightarrow> Wallet \<Rightarrow> Block list \<Rightarrow> panic + Wallet" where
  "revertBlocks T w [] = Inr w"
| "revertBlocks T w (block # blocks) =
     (case revertBlock T w block of
        Inl p \<Rightarrow> Inl p
      | Inr w' \<Rightarrow> revertBlocks T w' blocks)"

definition revertHistory :: "types \<Rightarrow> Wallet \<Rightarrow> ConsensusChange \<Rightarrow> panic + Wallet" where
  "revertHistory T w cc = revertBlocks T w (RevertedBlocks cc)"

subsection \<open>\<^verbatim>\<open>applyHistory\<close>\<close>

text \<open>
  \<^verbatim>\<open>append\<close> to \<open>processedTransactions\<close> followed by the store of the pointer to
  the new last element under the transaction's id.
\<close>

definition appendProcessed :: "Wallet \<Rightarrow> ProcessedTransaction \<Rightarrow> Wallet" where
  "appendProcessed w pt =
     w\<lparr>processedTransactions := processedTransactions w @ [pt],
       processedTransactionMap :=
         (processedTransactionMap w)(ptTransactionID pt \<mapsto> length (processedTransactions w))\<rparr>"

text \<open>The first loop over the miner payouts: relevance and historic outputs.\<close>

fun applyMinerPayouts ::
  "types \<Rightarrow> Wallet \<Rightarrow> DB \<Rightarrow> Block \<Rightarrow> nat \<Rightarrow> SiacoinOutput list \<Rightarrow> bool \<Rightarrow> error + (bool \<times> DB)" where
  "applyMinerPayouts T w tx block i [] relevant = Inr (relevant, tx)"
| "applyMinerPayouts T w tx block i (mp # mps) relevant =
     (case dbPutHistoricOutput tx (MinerPayoutID T block i) (scoValue mp) of
        Inl err \<Rightarrow> Inl (''could not put historic output: '' @ err)
      | Inr tx' \<Rightarrow>
          applyMinerPayouts T w tx' block (Suc i) mps
            (relevant \<or> isWalletAddress w (scoUnlockHash mp)))"

definition minerPayoutOutput :: "types \<Rightarrow> Wallet \<Rightarrow> SiacoinOutput \<Rightarrow> ProcessedOutput" where
  "minerPayoutOutput T w mp =
     \<lparr>poFundType = SpecifierMinerPayout,
      poMaturityHeight = consensusSetHeight w + MaturityDelay T,
      poWalletAddress = isWalletAddress w (scoUnlockHash mp),
      poRelatedAddress = scoUnlockHash mp,
      poValue = scoValue mp\<rparr>"

definition minerPT :: "types \<Rightarrow> Wallet \<Rightarrow> Block \<Rightarrow> ProcessedTransaction" where
  "minerPT T w block =
     \<lparr>ptTransaction = emptyTransaction,
      ptTransactionID = BlockID T block,
      ptConfirmationHeight = consensusSetHeight w,
      ptConfirmationTimestamp = Timestamp block,
      ptInputs = [],
      ptOutputs = map (minerPayoutOutput T w) (MinerPayouts block)\<rparr>"

text \<open>
  The relevance pass over a transaction. The loops over the inputs only update
  the flag \<open>relevant\<close>; the loops over the outputs also write the historic values.
\<close>

definition relevantSiacoinInputs :: "Wallet \<Rightarrow> SiacoinInput list \<Rightarrow> bool \<Rightarrow> bool" where
  "relevantSiacoinInputs w scis relevant =
     foldl (\<lambda>relevant sci. relevant \<or> isWalletAddress w (UnlockHash (sciUnlockConditions sci)))
       relevant scis"

definition relevantSiafundInputs :: "Wallet \<Rightarrow> SiafundInput list \<Rightarrow> bool \<Rightarrow> bool" where
  "relevantSiafundInputs w sfis relevant =
     foldl (\<lambda>relevant sfi. relevant \<or> isWalletAddress w (UnlockHash (sfiUnlockConditions sfi)))
       relevant sfis"

fun historicSiacoinOutputs ::
  "types \<Rightarrow> Wallet \<Rightarrow> DB \<Rightarrow> Transaction \<Rightarrow> nat \<Rightarrow> SiacoinOutput list \<Rightarrow> bool \<Rightarrow> error + (bool \<times> DB)" where
  "historicSiacoinOutputs T w tx txn i [] relevant = Inr (relevant, tx)"
| "historicSiacoinOutputs T w tx txn i (sco # scos) relevant =
     (case dbPutHistoricOutput tx (SiacoinOutputID T txn i) (scoValue sco) of
        Inl err \<Rightarrow> Inl (''could not put historic output: '' @ err)
      | Inr tx' \<Rightarrow>
          historicSiacoinOutputs T w tx' txn (Suc i) scos
            (relevant \<or> isWalletAddress w (scoUnlockHash sco)))"

fun historicSiafundOutputs ::
  "types \<Rightarrow> Wallet \<Rightarrow> DB \<Rightarrow> Transaction \<Rightarrow> nat \<Rightarrow> SiafundOutput list \<Rightarrow> bool \<Rightarrow> error + (bool \<times> DB)" where
  "historicSiafundOutputs T w tx txn i [] relevant = Inr (relevant, tx)"
| "historicSiafundOutputs T w tx txn i (sfo # sfos) relevant =
     (let id' = SiafundOutputID T txn i in
      case dbPutHistoricOutput tx id' (sfoValue sfo) of
        Inl err \<Rightarrow> Inl (''could not put historic output: '' @ err)
      | Inr tx' \<Rightarrow>
          (case dbPutHistoricClaimStart tx' id' (sfoClaimStart sfo) of
             Inl err \<Rightarrow> Inl (''could not put historic claim start: '' @ err)
           | Inr tx'' \<Rightarrow>
               historicSiafundOutputs T w tx'' txn (Suc i) sfos
                 (relevant \<or> isWalletAddress w (sfoUnlockHash sfo))))"

text \<open>The loops that build the inputs and outputs of a processed transaction.\<close>

fun processedSiacoinInputs :: "Wallet \<Rightarrow> DB \<Rightarrow> SiacoinInput list \<Rightarrow> error + ProcessedInput list" where
  "processedSiacoinInputs w tx [] = Inr []"
| "processedSiacoinInputs w tx (sci # scis) =
     (case dbGetHistoricOutput tx (sciParentID sci) of
        Inl err \<Rightarrow> Inl (''could not get historic output: '' @ err)
      | Inr val \<Rightarrow>
          (case processedSiacoinInputs w tx scis of
             Inl err \<Rightarrow> Inl err
           | Inr ins \<Rightarrow>
               Inr (\<lparr>piFundType = SpecifierSiacoinInput,
                     piWalletAddress = isWalletAddress w (UnlockHash (sciUnlockConditions sci)),
                     piRelatedAddress = UnlockHash (sciUnlockConditions sci),
                     piValue = val\<rparr> # ins)))"

definition siacoinOutputPO :: "Wallet \<Rightarrow> BlockHeight \<Rightarrow> SiacoinOutput \<Rightarrow> ProcessedOutput" where
  "siacoinOutputPO w h sco =
     \<lparr>poFundType = SpecifierSiacoinOutput,
      poMaturityHeight = h,
      poWalletAddress = isWalletAddress w (scoUnlockHash sco),
      poRelatedAddress = scoUnlockHash sco,
      poValue = scoValue sco\<rparr>"

text \<open>
  The loop over the siafund inputs appends one input and one claim output per
  siafund input; the result lists the pairs in order.
\<close>

fun processedSiafundInputs ::
  "types \<Rightarrow> Wallet \<Rightarrow> DB \<Rightarrow> SiafundInput list \<Rightarrow> error + (ProcessedInput \<times> ProcessedOutput) list" where
  "processedSiafundInputs T w tx [] = Inr []"
| "processedSiafundInputs T w tx (sfi # sfis) =
     (case dbGetHistoricOutput tx (sfiParentID sfi) of
        Inl err \<Rightarrow> Inl (''could not get historic output: '' @ err)
      | Inr sfiValue \<Rightarrow>
          (case dbGetHistoricClaimStart tx (sfiParentID sfi) of
             Inl err \<Rightarrow> Inl (''could not get historic claim start: '' @ err)
           | Inr startVal \<Rightarrow>
               (let claimValue = Mul (Sub (siafundPool w) startVal) sfiValue in
                case processedSiafundInputs T w tx sfis of
                  Inl err \<Rightarrow> Inl err
                | Inr rest \<Rightarrow>
                    Inr ((\<lparr>piFundType = SpecifierSiafundInput,
                           piWalletAddress = isWalletAddress w (UnlockHash (sfiUnlockConditions sfi)),
                           piRelatedAddress = UnlockHash (sfiUnlockConditions sfi),
                           piValue = sfiValue\<rparr>,
                          \<lparr>poFundType = SpecifierClaimOutput,
                           poMaturityHeight = consensusSetHeight w + MaturityDelay T,
                           poWalletAddress = isWalletAddress w (UnlockHash (sfiUnlockConditions sfi)),
                           poRelatedAddress = sfiClaimUnlockHash sfi,
                           poValue = claimValue\<rparr>) # rest))))"

definition siafundOutputPO :: "Wallet \<Rightarrow> SiafundOutput \<Rightarrow> ProcessedOutput" where
  "siafundOutputPO w sfo =
     \<lparr>poFundType = SpecifierSiafundOutput,
      poMaturityHeight = consensusSetHeight w,
      poWalletAddress = isWalletAddress w (sfoUnlockHash sfo),
      poRelatedAddress = sfoUnlockHash sfo,
      poValue = sfoValue sfo\<rparr>"

text \<open>A miner fee: the fields not set keep their zero values.\<close>

definition minerFeePO :: "Currency \<Rightarrow> ProcessedOutput" where
  "minerFeePO fee =
     \<lparr>poFundType = SpecifierMinerFee,
      poMaturityHeight = 0,
      poWalletAddress = False,
      poRelatedAddress = 0,
      poValue = fee\<rparr>"

text \<open>The body of the loop over the transactions of an applied block.\<close>

definition applyTransaction ::
  "types \<Rightarrow> Wallet \<Rightarrow> DB \<Rightarrow> Block \<Rightarrow> Transaction \<Rightarrow> Wallet \<times> (error + DB)" where
  "applyTransaction T w tx block txn =
     (case historicSiacoinOutputs T w tx txn 0 (SiacoinOutputs txn)
             (relevantSiacoinInputs w (SiacoinInputs txn) False) of
        Inl err \<Rightarrow> (w, Inl err)
      | Inr (relevant1, tx1) \<Rightarrow>
          (case historicSiafundOutputs T w tx1 txn 0 (SiafundOutputs txn)
                  (relevantSiafundInputs w (SiafundInputs txn) relevant1) of
             Inl err \<Rightarrow> (w, Inl err)
           | Inr (relevant, tx2) \<Rightarrow>
               if \<not> relevant then (w, Inr tx2)
               else
                 (case processedSiacoinInputs w tx2 (SiacoinInputs txn) of
                    Inl err \<Rightarrow> (w, Inl err)
                  | Inr scins \<Rightarrow>
                      (case processedSiafundInputs T w tx2 (SiafundInputs txn) of
                         Inl err \<Rightarrow> (w, Inl err)
                       | Inr sfs \<Rightarrow>
                           (appendProcessed w
                              \<lparr>ptTransaction = txn,
                               ptTransactionID = TransactionID T txn,
                               ptConfirmationHeight = consensusSetHeight w,
                               ptConfirmationTimestamp = Timestamp block,
                               ptInputs = scins @ map fst sfs,
                               ptOutputs =
                                 map (siacoinOutputPO w (consensusSetHeight w)) (SiacoinOutputs txn)
                                 @ map snd sfs
                                 @ map (siafundOutputPO w) (SiafundOutputs txn)
                                 @ map minerFeePO (MinerFees txn)\<rparr>,
                            Inr tx2)))))"

fun applyTransactions ::
  "types \<Rightarrow> Wallet \<Rightarrow> DB \<Rightarrow> Block \<Rightarrow> Transaction list \<Rightarrow> Wallet \<times> (error + DB)" where
  "applyTransactions T w tx block [] = (w, Inr tx)"
| "applyTransactions T w tx block (txn # txns) =
     (case applyTransaction T w tx block txn of
        (w', Inl err) \<Rightarrow> (w', Inl err)
      | (w', Inr tx') \<Rightarrow> applyTransactions T w' tx' block txns)"

text \<open>The body of the loop over the applied blocks.\<close>

definition applyBlock :: "types \<Rightarrow> Wallet \<Rightarrow> DB \<Rightarrow> Block \<Rightarrow> Wallet \<times> (error + DB)" where
  "applyBlock T w tx block =
     (let w1 = w\<lparr>consensusSetHeight := consensusSetHeight w + 1\<rparr> in
      case applyMinerPayouts T w1 tx block 0 (MinerPayouts block) False of
        Inl err \<Rightarrow> (w1, Inl err)
      | Inr (relevant, tx1) \<Rightarrow>
          applyTransactions T
            (if relevant then appendProcessed w1 (minerPT T w1 block) else w1)
            tx1 block (Transactions block))"

fun applyHistory :: "types \<Rightarrow> Wallet \<Rightarrow> DB \<Rightarrow> Block list \<Rightarrow> Wallet \<times> (error + DB)" where
  "applyHistory T w tx [] = (w, Inr tx)"
| "applyHistory T w tx (block # applied) =
     (case applyBlock T w tx block of
        (w', Inl err) \<Rightarrow> (w', Inl err)
      | (w', Inr tx') \<Rightarrow> applyHistory T w' tx' applied)"

section \<open>Processing a consensus change\<close>

text \<open>
  Modelled from the spec: \<^verbatim>\<open>db.Update\<close> of the key-value store (section 4.A):
  the function runs inside a writable transaction; when it returns an error
  nothing is written, otherwise the transaction's contents become the database.
\<close>

definition dbUpdate :: "DB \<Rightarrow> error + DB \<Rightarrow> DB" where
  "dbUpdate db r = (case r of Inl err \<Rightarrow> db | Inr tx \<Rightarrow> tx)"

definition logError :: "Wallet \<Rightarrow> string \<Rightarrow> error + DB \<Rightarrow> Wallet" where
  "logError w msg r =
     (case r of
        Inl err \<Rightarrow> w\<lparr>walletLog := walletLog w @ [msg @ err]\<rparr>
      | Inr tx \<Rightarrow> w)"

text \<open>The function passed to \<^verbatim>\<open>db.Update\<close> by \<^verbatim>\<open>ProcessConsensusChange\<close>.\<close>

definition processChangeTx ::
  "types \<Rightarrow> Wallet \<Rightarrow> ConsensusChange \<Rightarrow> DB \<Rightarrow> panic + (Wallet \<times> (error + DB))" where
  "processChangeTx T w cc tx =
     (case updateConfirmedSet w tx cc of
        (w1, Inl err) \<Rightarrow> Inr (w1, Inl err)
      | (w1, Inr tx1) \<Rightarrow>
          (case revertHistory T w1 cc of
             Inl p \<Rightarrow> Inl p
           | Inr w2 \<Rightarrow> Inr (applyHistory T w2 tx1 (AppliedBlocks cc))))"

definition ProcessConsensusChange ::
  "types \<Rightarrow> Wallet \<Rightarrow> DB \<Rightarrow> ConsensusChange \<Rightarrow> panic + (Wallet \<times> DB)" where
  "ProcessConsensusChange T w db cc =
     (if tgStopped w then Inr (w, db)
      else
        (case processChangeTx T w cc db of
           Inl p \<Rightarrow> Inl p
         | Inr (w', r) \<Rightarrow>
             Inr (logError w' ''ERROR: failed to add consensus change: '' r, dbUpdate db r)))"

section \<open>The unconfirmed updater\<close>

text \<open>The body of the loop over the transactions of the pool.\<close>

definition unconfirmedTransaction ::
  "types \<Rightarrow> Wallet \<Rightarrow> DB \<Rightarrow> Transaction \<Rightarrow> Wallet \<times> (error + DB)" where
  "unconfirmedTransaction T w tx txn =
     (case historicSiacoinOutputs T w tx txn 0 (SiacoinOutputs txn)
             (relevantSiacoinInputs w (SiacoinInputs txn) False) of
        Inl err \<Rightarrow> (w, Inl err)
      | Inr (relevant, tx1) \<Rightarrow>
          if \<not> relevant then (w, Inr tx1)
          else
            (case processedSiacoinInputs w tx1 (SiacoinInputs txn) of
               Inl err \<Rightarrow> (w, Inl err)
             | Inr ins \<Rightarrow>
                 (w\<lparr>unconfirmedProcessedTransactions :=
                      unconfirmedProcessedTransactions w @
                        [\<lparr>ptTransaction = txn,
                          ptTransactionID = TransactionID T txn,
                          ptConfirmationHeight = - 1,
                          ptConfirmationTimestamp = - 1,
                          ptInputs = ins,
                          ptOutputs =
                            map (siacoinOutputPO w (- 1)) (SiacoinOutputs txn)
                            @ map minerFeePO (MinerFees txn)\<rparr>]\<rparr>,
                  Inr tx1)))"

fun unconfirmedTransactions ::
  "types \<Rightarrow> Wallet \<Rightarrow> DB \<Rightarrow> Transaction list \<Rightarrow> Wallet \<times> (error + DB)" where
  "unconfirmedTransactions T w tx [] = (w, Inr tx)"
| "unconfirmedTransactions T w tx (txn # txns) =
     (case unconfirmedTransaction T w tx txn of
        (w', Inl err) \<Rightarrow> (w', Inl err)
      | (w', Inr tx') \<Rightarrow> unconfirmedTransactions T w' tx' txns)"

definition ReceiveUpdatedUnconfirmedTransactions ::
  "types \<Rightarrow> Wallet \<Rightarrow> DB \<Rightarrow> Transaction list \<Rightarrow> Wallet \<times> DB" where
  "ReceiveUpdatedUnconfirmedTransactions T w db txns =
     (if tgStopped w then (w, db)
      else
        (case unconfirmedTransactions T (w\<lparr>unconfirmedProcessedTransactions := []\<rparr>) db txns of
           (w', r) \<Rightarrow>
             (logError w' ''ERROR: failed to add unconfirmed transactions: '' r, dbUpdate db r)))"

section \<open>The seed scanner\<close>

text \<open>
  Modelled from the spec: a seed (section 3) deterministically generates an
  infinite sequence of spendable keys and unlock hashes, indexed by a progress
  counter; the key derivation itself is not part of the wallet's update code.
  A seed is represented by the unlock hash it derives at each index, and
  \<open>generateKeysFrom seed start n\<close> lists the unlock hashes of the \<open>n\<close> keys from index
  \<open>start\<close> on (the package-level function \<^verbatim>\<open>generateKeys(seed, start, n)\<close>).
\<close>

type_synonym Seed = "nat \<Rightarrow> UnlockHash"

definition generateKeysFrom :: "Seed \<Rightarrow> nat \<Rightarrow> nat \<Rightarrow> UnlockHash list" where
  "generateKeysFrom sd start n = map sd [start..<start + n]"

text \<open>
  \<^verbatim>\<open>numInitialKeys\<close> and \<^verbatim>\<open>maxScanKeys\<close> are set from \<^verbatim>\<open>build.Release\<close>; any other
  release string panics when the package is initialised.
\<close>

datatype Release = dev | standard | testing

fun numInitialKeys :: "Release \<Rightarrow> nat" where
  "numInitialKeys dev = 10000"
| "numInitialKeys standard = 1000000"
| "numInitialKeys testing = 1000"

fun maxScanKeys :: "Release \<Rightarrow> nat" where
  "maxScanKeys dev = 1000000"
| "maxScanKeys standard = 100000000"
| "maxScanKeys testing = 100000"

text \<open>The decimal digits of a number, for the \<^verbatim>\<open>%v\<close> of the error message.\<close>

fun decimal :: "nat \<Rightarrow> string" where
  "decimal n =
     (if n < 10 then [char_of (48 + n)]
      else decimal (n div 10) @ [char_of (48 + n mod 10)])"

definition errMaxKeys :: "nat \<Rightarrow> error" where
  "errMaxKeys maxKeys =
     ''refused to generate more than '' @ decimal maxKeys @ '' keys from seed''"

record scannedSiacoinOutput =
  ssoID :: Hash
  ssoValue :: Currency
  seedIndex :: nat

text \<open>
  The scanner's \<open>keys\<close> map an address to its seed index. \<^verbatim>\<open>len(s.keys)\<close> counts
  the entries of the map, so the map is an association list with one entry per
  address; seed indices are \<^verbatim>\<open>uint64\<close> values that count generated keys.
\<close>

record seedScanner =
  seed :: Seed
  skeys :: "(UnlockHash \<times> nat) list"
  siacoinOutputs :: "Hash \<rightharpoonup> scannedSiacoinOutput"
  minerOutputs :: "BlockHeight \<rightharpoonup> scannedSiacoinOutput list"
  largestIndexSeen :: nat
  blockheight :: BlockHeight

definition isSeedAddress :: "seedScanner \<Rightarrow> UnlockHash \<Rightarrow> bool" where
  "isSeedAddress s uh = (map_of (skeys s) uh \<noteq> None)"

definition generateKeys :: "seedScanner \<Rightarrow> nat \<Rightarrow> seedScanner" where
  "generateKeys s n =
     (let initialProgress = length (skeys s) in
      s\<lparr>skeys :=
          foldl (\<lambda>ks (i, uh). AList.update uh (initialProgress + i) ks) (skeys s)
            (enumerate 0 (generateKeysFrom (seed s) initialProgress n))\<rparr>)"

text \<open>The parts of the loop over the applied blocks.\<close>

definition promoteMatured :: "seedScanner \<Rightarrow> seedScanner" where
  "promoteMatured s =
     (case minerOutputs s (blockheight s) of
        None \<Rightarrow> s
      | Some matured \<Rightarrow>
          s\<lparr>siacoinOutputs :=
               foldl (\<lambda>m maturedOutput. m(ssoID maturedOutput \<mapsto> maturedOutput))
                 (siacoinOutputs s) matured,
            minerOutputs := (minerOutputs s)(blockheight s := None)\<rparr>)"

fun scanMinerPayouts ::
  "types \<Rightarrow> seedScanner \<Rightarrow> Block \<Rightarrow> nat \<Rightarrow> SiacoinOutput list \<Rightarrow> seedScanner" where
  "scanMinerPayouts T s block i [] = s"
| "scanMinerPayouts T s block i (mp # mps) =
     scanMinerPayouts T
       (case map_of (skeys s) (scoUnlockHash mp) of
          None \<Rightarrow> s
        | Some index \<Rightarrow>
            (let maturityHeight = blockheight s + MaturityDelay T in
             s\<lparr>minerOutputs :=
                 (minerOutputs s)(maturityHeight \<mapsto>
                    (case minerOutputs s maturityHeight of None \<Rightarrow> [] | Some outs \<Rightarrow> outs)
                    @ [\<lparr>ssoID = MinerPayoutID T block i, ssoValue = scoValue mp,
                         seedIndex = index\<rparr>])\<rparr>))
       block (Suc i) mps"

fun scanSiacoinOutputs ::
  "types \<Rightarrow> seedScanner \<Rightarrow> Transaction \<Rightarrow> nat \<Rightarrow> SiacoinOutput list \<Rightarrow> seedScanner" where
  "scanSiacoinOutputs T s txn i [] = s"
| "scanSiacoinOutputs T s txn i (sco # scos) =
     scanSiacoinOutputs T
       (case map_of (skeys s) (scoUnlockHash sco) of
          None \<Rightarrow> s
        | Some index \<Rightarrow>
            (let id' = SiacoinOutputID T txn i in
             s\<lparr>siacoinOutputs :=
                 (siacoinOutputs s)(id' \<mapsto>
                    \<lparr>ssoID = id', ssoValue = scoValue sco, seedIndex = index\<rparr>)\<rparr>))
       txn (Suc i) scos"

fun scanSiacoinInputs :: "seedScanner \<Rightarrow> SiacoinInput list \<Rightarrow> seedScanner" where
  "scanSiacoinInputs s [] = s"
| "scanSiacoinInputs s (sci # scis) =
     scanSiacoinInputs
       (if siacoinOutputs s (sciParentID sci) \<noteq> None
        then s\<lparr>siacoinOutputs := (siacoinOutputs s)(sciParentID sci := None)\<rparr>
        else s)
       scis"

definition scanTransaction :: "types \<Rightarrow> seedScanner \<Rightarrow> Transaction \<Rightarrow> seedScanner" where
  "scanTransaction T s txn =
     scanSiacoinInputs (scanSiacoinOutputs T s txn 0 (SiacoinOutputs txn)) (SiacoinInputs txn)"

definition scanBlock :: "types \<Rightarrow> seedScanner \<Rightarrow> Block \<Rightarrow> seedScanner" where
  "scanBlock T s block =
     foldl (scanTransaction T)
       (scanMinerPayouts T (promoteMatured (s\<lparr>blockheight := blockheight s + 1\<rparr>))
          block 0 (MinerPayouts block))
       (Transactions block)"

text \<open>The addresses collected from a change, in the order of the source.\<close>

definition txnAddrs :: "Transaction \<Rightarrow> UnlockHash list" where
  "txnAddrs txn =
     map (\<lambda>sci. UnlockHash (sciUnlockConditions sci)) (SiacoinInputs txn)
     @ map scoUnlockHash (SiacoinOutputs txn)
     @ map (\<lambda>sfi. UnlockHash (sfiUnlockConditions sfi)) (SiafundInputs txn)
     @ map sfoUnlockHash (SiafundOutputs txn)"

definition changeAddrs :: "ConsensusChange \<Rightarrow> UnlockHash list" where
  "changeAddrs cc =
     map (\<lambda>diff. scoUnlockHash (scodSiacoinOutput diff)) (SiacoinOutputDiffs cc)
     @ map (\<lambda>diff. sfoUnlockHash (sfodSiafundOutput diff)) (SiafundOutputDiffs cc)
     @ concat (map (\<lambda>block. map scoUnlockHash (MinerPayouts block)
                              @ concat (map txnAddrs (Transactions block)))
                 (AppliedBlocks cc))"

definition updateLargestIndexSeen :: "seedScanner \<Rightarrow> UnlockHash \<Rightarrow> seedScanner" where
  "updateLargestIndexSeen s addr =
     (case map_of (skeys s) addr of
        None \<Rightarrow> s
      | Some index \<Rightarrow>
          if index > largestIndexSeen s then s\<lparr>largestIndexSeen := index\<rparr> else s)"

definition seedScanner_ProcessConsensusChange ::
  "types \<Rightarrow> seedScanner \<Rightarrow> ConsensusChange \<Rightarrow> seedScanner" where
  "seedScanner_ProcessConsensusChange T s cc =
     foldl updateLargestIndexSeen
       (foldl (scanBlock T)
          (s\<lparr>blockheight := blockheight s - of_nat (length (RevertedBlocks cc))\<rparr>)
          (AppliedBlocks cc))
       (changeAddrs cc)"

text \<open>
  Modelled from the spec: the consensus set as the scanner sees it (section 4.F).
  A subscription from the beginning of history is synchronous: when it returns,
  all historical changes have been delivered to the subscriber, in order; it can
  fail with an error instead. The calls that \<open>scan\<close> makes on the consensus set
  are recorded in order.
\<close>

record ConsensusSet =
  csHistory :: "ConsensusChange list"
  csSubscribeError :: "error option"

datatype csCall = CallSubscribe | CallUnsubscribe

definition ConsensusSetSubscribe ::
  "types \<Rightarrow> ConsensusSet \<Rightarrow> seedScanner \<Rightarrow> error + seedScanner" where
  "ConsensusSetSubscribe T cs s =
     (case csSubscribeError cs of
        Some err \<Rightarrow> Inl err
      | None \<Rightarrow> Inr (foldl (seedScanner_ProcessConsensusChange T) s (csHistory cs)))"

text \<open>
  The loop of \<open>scan\<close>. \<open>numKeys\<close> is a \<^verbatim>\<open>uint64\<close>: the doubling and the subtraction
  in the cap wrap around at \<open>2 ^ 64\<close>. The loop need not terminate (with
  \<open>numKeys = 0\<close> it never does), so the result is optional.
\<close>

partial_function (option) scanLoop ::
  "types \<Rightarrow> nat \<Rightarrow> ConsensusSet \<Rightarrow> seedScanner \<Rightarrow> nat \<Rightarrow> csCall list
     \<Rightarrow> (error option \<times> seedScanner \<times> csCall list) option" where
  "scanLoop T maxKeys cs s numKeys calls =
     (if length (skeys s) < maxKeys then
        (case ConsensusSetSubscribe T cs (generateKeys s numKeys) of
           Inl err \<Rightarrow> Some (Some err, generateKeys s numKeys, calls @ [CallSubscribe])
         | Inr s' \<Rightarrow>
             if largestIndexSeen s' < length (skeys s') div 2
             then Some (None, s', calls @ [CallSubscribe, CallUnsubscribe])
             else
               scanLoop T maxKeys cs s'
                 (if (numKeys * 2) mod 2 ^ 64 > (maxKeys + 2 ^ 64 - length (skeys s')) mod 2 ^ 64
                  then (maxKeys + 2 ^ 64 - length (skeys s')) mod 2 ^ 64
                  else (numKeys * 2) mod 2 ^ 64)
                 (calls @ [CallSubscribe]))
      else Some (Some (errMaxKeys maxKeys), s, calls @ [CallUnsubscribe]))"

text \<open>
  \<open>scan\<close> takes the values of the package variables \<^verbatim>\<open>numInitialKeys\<close> and
  \<^verbatim>\<open>maxScanKeys\<close> as the parameters \<open>initialKeys\<close> and \<open>maxKeys\<close>; for a release
  \<open>rel\<close> they are \<open>numInitialKeys rel\<close> and \<open>maxScanKeys rel\<close>. The result holds the
  returned error, the scanner and the calls made on the consensus set.
\<close>

definition scan ::
  "types \<Rightarrow> nat \<Rightarrow> nat \<Rightarrow> ConsensusSet \<Rightarrow> seedScanner
     \<Rightarrow> (error option \<times> seedScanner \<times> csCall list) option" where
  "scan T initialKeys maxKeys cs s = scanLoop T maxKeys cs s initialKeys []"

definition newSeedScanner :: "Seed \<Rightarrow> seedScanner" where
  "newSeedScanner sd =
     \<lparr>seed = sd, skeys = [], siacoinOutputs = Map.empty, minerOutputs = Map.empty,
      largestIndexSeen = 0, blockheight = 0\<rparr>"

section \<open>Notions used in the statements\<close>

text \<open>
  Runs of several changes, the two notions of relevance, the revert of a sequence
  of changes with the consistency of its diffs, and what the statements about the
  scanner speak of.
\<close>

text \<open>
  Consensus changes of one subscription are processed in delivery order; a panic
  ends the run.
\<close>

fun processChanges :: "types \<Rightarrow> Wallet \<Rightarrow> DB \<Rightarrow> ConsensusChange list \<Rightarrow> panic + (Wallet \<times> DB)" where
  "processChanges T w db [] = Inr (w, db)"
| "processChanges T w db (cc # ccs) =
     (case ProcessConsensusChange T w db cc of
        Inl p \<Rightarrow> Inl p
      | Inr (w', db') \<Rightarrow> processChanges T w' db' ccs)"

text \<open>
  Relevance in the words of the specification (section 4.D, step 3): some input's
  derived address is in \<open>keys\<close> or some output's address is in \<open>keys\<close>, across both the
  siacoin and the siafund sets.
\<close>

definition specRelevant :: "Wallet \<Rightarrow> Transaction \<Rightarrow> bool" where
  "specRelevant w txn \<longleftrightarrow>
     (\<exists>sci\<in>set (SiacoinInputs txn). UnlockHash (sciUnlockConditions sci) \<in> dom (keys w))
     \<or> (\<exists>sco\<in>set (SiacoinOutputs txn). scoUnlockHash sco \<in> dom (keys w))
     \<or> (\<exists>sfi\<in>set (SiafundInputs txn). UnlockHash (sfiUnlockConditions sfi) \<in> dom (keys w))
     \<or> (\<exists>sfo\<in>set (SiafundOutputs txn). sfoUnlockHash sfo \<in> dom (keys w))"

text \<open>
  The relevance flag that the two loops of the unconfirmed updater compute: they
  run over the siacoin inputs and the siacoin outputs only.
\<close>

definition siacoinRelevant :: "Wallet \<Rightarrow> Transaction \<Rightarrow> bool" where
  "siacoinRelevant w txn \<longleftrightarrow>
     (\<exists>sci\<in>set (SiacoinInputs txn). isWalletAddress w (UnlockHash (sciUnlockConditions sci)))
     \<or> (\<exists>sco\<in>set (SiacoinOutputs txn). isWalletAddress w (scoUnlockHash sco))"

text \<open>
  The revert of a sequence of changes, for the round-trip property of the
  specification (section 8, invariant 1): the inverse of a change reverts the
  blocks it applied, applies the blocks it reverted, and carries its diffs in
  reverse order with the directions flipped; the full revert of a sequence is the
  sequence of the inverses, last change first.
\<close>

definition flipDirection :: "DiffDirection \<Rightarrow> DiffDirection" where
  "flipDirection d = (case d of DiffApply \<Rightarrow> DiffRevert | DiffRevert \<Rightarrow> DiffApply)"

definition invertChange :: "ConsensusChange \<Rightarrow> ConsensusChange" where
  "invertChange cc =
     \<lparr>RevertedBlocks = rev (AppliedBlocks cc),
      AppliedBlocks = rev (RevertedBlocks cc),
      SiacoinOutputDiffs =
        rev (map (\<lambda>d. d\<lparr>scodDirection := flipDirection (scodDirection d)\<rparr>)
               (SiacoinOutputDiffs cc)),
      SiafundOutputDiffs =
        rev (map (\<lambda>d. d\<lparr>sfodDirection := flipDirection (sfodDirection d)\<rparr>)
               (SiafundOutputDiffs cc)),
      SiafundPoolDiffs =
        rev (map (\<lambda>d. d\<lparr>sfpdDirection := flipDirection (sfpdDirection d)\<rparr>)
               (SiafundPoolDiffs cc))\<rparr>"

definition fullRevert :: "ConsensusChange list \<Rightarrow> ConsensusChange list" where
  "fullRevert ccs = rev (map invertChange ccs)"

text \<open>
  The diffs that concern the wallet, as triples of direction, id and output, and
  their effect on a bucket when no storage error occurs. A list of diffs is
  consistent with a bucket when every applied diff creates an id that is absent
  and every reverted diff removes an id that holds the diff's output.
\<close>

definition walletSiacoinDiffs ::
  "Wallet \<Rightarrow> SiacoinOutputDiff list \<Rightarrow> (DiffDirection \<times> Hash \<times> SiacoinOutput) list" where
  "walletSiacoinDiffs w ds =
     map (\<lambda>d. (scodDirection d, scodID d, scodSiacoinOutput d))
       (filter (\<lambda>d. isWalletAddress w (scoUnlockHash (scodSiacoinOutput d))) ds)"

definition walletSiafundDiffs ::
  "Wallet \<Rightarrow> SiafundOutputDiff list \<Rightarrow> (DiffDirection \<times> Hash \<times> SiafundOutput) list" where
  "walletSiafundDiffs w ds =
     map (\<lambda>d. (sfodDirection d, sfodID d, sfodSiafundOutput d))
       (filter (\<lambda>d. isWalletAddress w (sfoUnlockHash (sfodSiafundOutput d))) ds)"

fun stepBucket :: "(Hash \<rightharpoonup> 'v) \<Rightarrow> DiffDirection \<times> Hash \<times> 'v \<Rightarrow> (Hash \<rightharpoonup> 'v)" where
  "stepBucket b (dir, id', v) = (if dir = DiffApply then b(id' \<mapsto> v) else b(id' := None))"

fun consistentDiffs :: "(Hash \<rightharpoonup> 'v) \<Rightarrow> (DiffDirection \<times> Hash \<times> 'v) list \<Rightarrow> bool" where
  "consistentDiffs b [] = True"
| "consistentDiffs b ((dir, id', v) # ds) =
     ((if dir = DiffApply then b id' = None else b id' = Some v)
      \<and> consistentDiffs (stepBucket b (dir, id', v)) ds)"

text \<open>What is observed of a run of \<open>scan\<close>: the error, the number of keys, the
  largest index seen and the calls on the consensus set.\<close>

definition scanOutcome ::
  "(error option \<times> seedScanner \<times> csCall list) option
     \<Rightarrow> (error option \<times> nat \<times> nat \<times> csCall list) option" where
  "scanOutcome r =
     map_option (\<lambda>(err, s, calls). (err, length (skeys s), largestIndexSeen s, calls)) r"

text \<open>
  The on-chain activity of a seed uses only indices below \<open>K\<close>: an address that the
  scanner reads from a delivered change is derived from the seed at such indices
  only.
\<close>

definition activityBelow :: "Seed \<Rightarrow> ConsensusSet \<Rightarrow> nat \<Rightarrow> bool" where
  "activityBelow sd cs K \<longleftrightarrow>
     (\<forall>cc\<in>set (csHistory cs). \<forall>a\<in>set (changeAddrs cc). \<forall>i. a = sd i \<longrightarrow> i < K)"

text \<open>
  The number of keys after \<open>r\<close> rounds in which the cap did not apply: the rounds
  generate \<open>I\<close>, \<open>2 * I\<close>, \<open>4 * I\<close>, ... keys.
\<close>

fun keysAfter :: "nat \<Rightarrow> nat \<Rightarrow> nat" where
  "keysAfter I 0 = 0"
| "keysAfter I (Suc r) = 2 * keysAfter I r + I"

section \<open>Predicates used in the proofs\<close>

text \<open>The in-memory fields that the history engine never writes.\<close>

definition sameStatic :: "Wallet \<Rightarrow> Wallet \<Rightarrow> bool" where
  "sameStatic w w' \<longleftrightarrow> keys w' = keys w \<and> siafundPool w' = siafundPool w
     \<and> unconfirmedProcessedTransactions w' = unconfirmedProcessedTransactions w
     \<and> tgStopped w' = tgStopped w \<and> walletLog w' = walletLog w"

text \<open>Predicates that name the parts of the state a function leaves alone.\<close>

definition sameConfirmed :: "DB \<Rightarrow> DB \<Rightarrow> bool" where
  "sameConfirmed tx tx' \<longleftrightarrow>
     bucketSiacoinOutputs tx' = bucketSiacoinOutputs tx
     \<and> bucketSiafundOutputs tx' = bucketSiafundOutputs tx
     \<and> kvFault tx' = kvFault tx"

text \<open>Every output stored in a \<open>SiacoinOutputs\<close> bucket belongs to the wallet.\<close>

definition owned :: "Wallet \<Rightarrow> (Hash \<rightharpoonup> SiacoinOutput) \<Rightarrow> bool" where
  "owned w b \<longleftrightarrow> (\<forall>id' out. b id' = Some out \<longrightarrow> isWalletAddress w (scoUnlockHash out))"

definition sameButUnconfirmed :: "Wallet \<Rightarrow> Wallet \<Rightarrow> bool" where
  "sameButUnconfirmed w w' \<longleftrightarrow>
     keys w' = keys w \<and> processedTransactions w' = processedTransactions w
     \<and> processedTransactionMap w' = processedTransactionMap w
     \<and> siafundPool w' = siafundPool w \<and> consensusSetHeight w' = consensusSetHeight w
     \<and> tgStopped w' = tgStopped w \<and> walletLog w' = walletLog w"

definition sameButHistoricOutputs :: "DB \<Rightarrow> DB \<Rightarrow> bool" where
  "sameButHistoricOutputs tx tx' \<longleftrightarrow>
     bucketSiacoinOutputs tx' = bucketSiacoinOutputs tx
     \<and> bucketSiafundOutputs tx' = bucketSiafundOutputs tx
     \<and> bucketHistoricClaimStarts tx' = bucketHistoricClaimStarts tx
     \<and> kvFault tx' = kvFault tx"

definition historicGrows :: "DB \<Rightarrow> DB \<Rightarrow> bool" where
  "historicGrows tx tx' \<longleftrightarrow>
     dom (bucketHistoricOutputs tx) \<subseteq> dom (bucketHistoricOutputs tx')
     \<and> dom (bucketHistoricClaimStarts tx) \<subseteq> dom (bucketHistoricClaimStarts tx')"

text \<open>
  The keys of the scanner after it has generated \<open>n\<close> keys from the seed \<open>sd\<close>:
  \<open>n\<close> entries, each the address of an index below \<open>n\<close>.
\<close>

definition keysOK :: "Seed \<Rightarrow> nat \<Rightarrow> (UnlockHash \<times> nat) list \<Rightarrow> bool" where
  "keysOK sd n ks \<longleftrightarrow> length ks = n \<and> (\<forall>(a, i)\<in>set ks. a = sd i \<and> i < n)"

text \<open>Delivering changes touches neither the keys nor the seed.\<close>

definition sameKeys :: "seedScanner \<Rightarrow> seedScanner \<Rightarrow> bool" where
  "sameKeys s s' \<longleftrightarrow> skeys s' = skeys s \<and> seed s' = seed s"

section \<open>Example data\<close>

text \<open>
  A concrete instance of the identifier functions for the examples: the miner fees
  of a transaction and the timestamp of a block serve as the content that is
  hashed, and the ranges of the five functions are disjoint for small inputs.
\<close>

definition exTypes :: types where
  "exTypes =
     \<lparr>TransactionID = (\<lambda>txn. 100 + sum_list (MinerFees txn)),
      SiacoinOutputID = (\<lambda>txn i. 1000 + 10 * sum_list (MinerFees txn) + i),
      SiafundOutputID = (\<lambda>txn i. 2000 + 10 * sum_list (MinerFees txn) + i),
      BlockID = (\<lambda>b. 3000 + unat (Timestamp b)),
      MinerPayoutID = (\<lambda>b i. 4000 + 10 * unat (Timestamp b) + i),
      MaturityDelay = 144\<rparr>"

text \<open>A fresh wallet with one key, for address \<open>1\<close>, and an empty database.\<close>

definition exWallet :: Wallet where
  "exWallet =
     \<lparr>keys = [1 \<mapsto> 0], processedTransactions = [], processedTransactionMap = Map.empty,
      unconfirmedProcessedTransactions = [], siafundPool = 0, consensusSetHeight = 0,
      tgStopped = False, walletLog = []\<rparr>"

definition exDB :: DB where
  "exDB =
     \<lparr>bucketSiacoinOutputs = Map.empty, bucketSiafundOutputs = Map.empty,
      bucketHistoricOutputs = Map.empty, bucketHistoricClaimStarts = Map.empty,
      kvFault = (\<lambda>b k. False)\<rparr>"

text \<open>
  Scenario S1: a block with one transaction that pays \<open>100\<close> to the wallet's address
  and \<open>50\<close> to address \<open>2\<close>; the change also carries two siafund pool diffs.
\<close>

definition exReceiveTxn :: Transaction where
  "exReceiveTxn =
     \<lparr>SiacoinInputs = [],
      SiacoinOutputs = [\<lparr>scoValue = 100, scoUnlockHash = 1\<rparr>, \<lparr>scoValue = 50, scoUnlockHash = 2\<rparr>],
      SiafundInputs = [], SiafundOutputs = [], MinerFees = [1]\<rparr>"

definition exReceiveBlock :: Block where
  "exReceiveBlock = \<lparr>Timestamp = 1, MinerPayouts = [], Transactions = [exReceiveTxn]\<rparr>"

definition exReceiveChange :: ConsensusChange where
  "exReceiveChange =
     \<lparr>RevertedBlocks = [], AppliedBlocks = [exReceiveBlock],
      SiacoinOutputDiffs =
        [\<lparr>scodDirection = DiffApply, scodID = 1010,
          scodSiacoinOutput = \<lparr>scoValue = 100, scoUnlockHash = 1\<rparr>\<rparr>,
         \<lparr>scodDirection = DiffApply, scodID = 1011,
          scodSiacoinOutput = \<lparr>scoValue = 50, scoUnlockHash = 2\<rparr>\<rparr>],
      SiafundOutputDiffs = [],
      SiafundPoolDiffs =
        [\<lparr>sfpdDirection = DiffApply, sfpdPrevious = 0, sfpdAdjusted = 1000\<rparr>,
         \<lparr>sfpdDirection = DiffRevert, sfpdPrevious = 400, sfpdAdjusted = 1000\<rparr>]\<rparr>"

text \<open>
  Scenario S4: the pool is 1000, the spent siafund output \<open>77\<close> has value 3 and
  claim start 400.
\<close>

definition exClaimWallet :: Wallet where
  "exClaimWallet = exWallet\<lparr>siafundPool := 1000, consensusSetHeight := 5\<rparr>"

definition exClaimDB :: DB where
  "exClaimDB = exDB\<lparr>bucketHistoricOutputs := [77 \<mapsto> 3], bucketHistoricClaimStarts := [77 \<mapsto> 400]\<rparr>"

definition exClaimTxn :: Transaction where
  "exClaimTxn =
     \<lparr>SiacoinInputs = [], SiacoinOutputs = [],
      SiafundInputs = [\<lparr>sfiParentID = 77, sfiUnlockConditions = \<lparr>UnlockHash = 1\<rparr>,
                        sfiClaimUnlockHash = 9\<rparr>],
      SiafundOutputs = [], MinerFees = [2]\<rparr>"

definition exClaimPT :: ProcessedTransaction where
  "exClaimPT =
     \<lparr>ptTransaction = exClaimTxn, ptTransactionID = 102, ptConfirmationHeight = 5,
      ptConfirmationTimestamp = 1,
      ptInputs = [\<lparr>piFundType = SpecifierSiafundInput, piWalletAddress = True,
                   piRelatedAddress = 1, piValue = 3\<rparr>],
      ptOutputs = [\<lparr>poFundType = SpecifierClaimOutput, poMaturityHeight = 149,
                    poWalletAddress = True, poRelatedAddress = 9, poValue = 1800\<rparr>,
                   minerFeePO 2]\<rparr>"

text \<open>
  Scenario S3 with a transaction: a block whose miner payout of \<open>200\<close> goes to the
  wallet's address and which holds the transaction of S1; and the change that
  reverts this block.
\<close>

definition exPayoutBlock :: Block where
  "exPayoutBlock =
     \<lparr>Timestamp = 2, MinerPayouts = [\<lparr>scoValue = 200, scoUnlockHash = 1\<rparr>],
      Transactions = [exReceiveTxn]\<rparr>"

definition exPayoutRevert :: ConsensusChange where
  "exPayoutRevert =
     \<lparr>RevertedBlocks = [exPayoutBlock], AppliedBlocks = [],
      SiacoinOutputDiffs = [], SiafundOutputDiffs = [], SiafundPoolDiffs = []\<rparr>"

text \<open>
  A block that holds the transaction of S1 followed by a transaction that spends
  the output \<open>999\<close> from the wallet's address, delivered with one pool diff.
  \<open>HistoricOutputs\<close> does not hold \<open>999\<close>: no transaction or miner payout of an
  applied block created it (as for the payout of a file contract or a siafund
  claim). Then the wallet as it is in memory after this change has been
  processed.
\<close>

definition exSpendTxn :: Transaction where
  "exSpendTxn =
     \<lparr>SiacoinInputs = [\<lparr>sciParentID = 999, sciUnlockConditions = \<lparr>UnlockHash = 1\<rparr>\<rparr>],
      SiacoinOutputs = [], SiafundInputs = [], SiafundOutputs = [], MinerFees = [3]\<rparr>"

definition exSpendChange :: ConsensusChange where
  "exSpendChange =
     \<lparr>RevertedBlocks = [],
      AppliedBlocks = [\<lparr>Timestamp = 3, MinerPayouts = [],
                        Transactions = [exReceiveTxn, exSpendTxn]\<rparr>],
      SiacoinOutputDiffs = [], SiafundOutputDiffs = [],
      SiafundPoolDiffs = [\<lparr>sfpdDirection = DiffApply, sfpdPrevious = 0, sfpdAdjusted = 1000\<rparr>]\<rparr>"

definition exSpendResult :: Wallet where
  "exSpendResult =
     exWallet
       \<lparr>processedTransactions :=
          [\<lparr>ptTransaction = exReceiveTxn, ptTransactionID = 101, ptConfirmationHeight = 1,
            ptConfirmationTimestamp = 3, ptInputs = [],
            ptOutputs =
              [\<lparr>poFundType = SpecifierSiacoinOutput, poMaturityHeight = 1,
                poWalletAddress = True, poRelatedAddress = 1, poValue = 100\<rparr>,
               \<lparr>poFundType = SpecifierSiacoinOutput, poMaturityHeight = 1,
                poWalletAddress = False, poRelatedAddress = 2, poValue = 50\<rparr>,
               minerFeePO 1]\<rparr>],
        processedTransactionMap := [101 \<mapsto> 0],
        siafundPool := 1000,
        consensusSetHeight := 1,
        walletLog :=
          [''ERROR: failed to add consensus change: could not get historic output: key does not exist'']\<rparr>"

text \<open>
  A transaction of the pool whose only link to the wallet is a siafund output
  paid to the wallet's address.
\<close>

definition exSiafundTxn :: Transaction where
  "exSiafundTxn =
     \<lparr>SiacoinInputs = [], SiacoinOutputs = [], SiafundInputs = [],
      SiafundOutputs = [\<lparr>sfoValue = 5, sfoUnlockHash = 1, sfoClaimStart = 0\<rparr>],
      MinerFees = [4]\<rparr>"

text \<open>
  Scenario S5: the seed derives the address \<open>100 + i\<close> at index \<open>i\<close>, and the chain
  holds one transaction that pays to the addresses of the indices 0, 1 and 5.
\<close>

definition exSeed :: Seed where
  "exSeed i = 100 + i"

definition exChain :: ConsensusSet where
  "exChain =
     \<lparr>csHistory =
        [\<lparr>RevertedBlocks = [],
          AppliedBlocks =
            [\<lparr>Timestamp = 1, MinerPayouts = [],
              Transactions =
                [\<lparr>SiacoinInputs = [],
                  SiacoinOutputs =
                    [\<lparr>scoValue = 7, scoUnlockHash = 100\<rparr>,
                     \<lparr>scoValue = 8, scoUnlockHash = 101\<rparr>,
                     \<lparr>scoValue = 9, scoUnlockHash = 105\<rparr>],
                  SiafundInputs = [], SiafundOutputs = [], MinerFees = [1]\<rparr>]\<rparr>],
          SiacoinOutputDiffs = [], SiafundOutputDiffs = [], SiafundPoolDiffs = []\<rparr>],
      csSubscribeError = None\<rparr>"

text \<open>A chain whose only transaction pays to the seed's address of index 500.\<close>

definition exPay500Change :: ConsensusChange where
  "exPay500Change =
     \<lparr>RevertedBlocks = [],
      AppliedBlocks =
        [\<lparr>Timestamp = 1, MinerPayouts = [],
          Transactions =
            [\<lparr>SiacoinInputs = [],
              SiacoinOutputs = [\<lparr>scoValue = 7, scoUnlockHash = 600\<rparr>],
              SiafundInputs = [], SiafundOutputs = [], MinerFees = [1]\<rparr>]\<rparr>],
      SiacoinOutputDiffs = [], SiafundOutputDiffs = [], SiafundPoolDiffs = []\<rparr>"

definition exChain500 :: ConsensusSet where
  "exChain500 = \<lparr>csHistory = [exPay500Change], csSubscribeError = None\<rparr>"

text \<open>
  The block that holds the transaction of S4 alone, and the wallet and processed
  transaction of S4 with a siafund pool of \<open>100\<close>, below the claim start \<open>400\<close> of the
  spent siafund output.
\<close>

definition exClaimBlock :: Block where
  "exClaimBlock = \<lparr>Timestamp = 1, MinerPayouts = [], Transactions = [exClaimTxn]\<rparr>"

definition exUnderWallet :: Wallet where
  "exUnderWallet = exWallet\<lparr>siafundPool := 100, consensusSetHeight := 5\<rparr>"

definition exUnderPT :: ProcessedTransaction where
  "exUnderPT =
     \<lparr>ptTransaction = exClaimTxn, ptTransactionID = 102, ptConfirmationHeight = 6,
      ptConfirmationTimestamp = 1,
      ptInputs = [\<lparr>piFundType = SpecifierSiafundInput, piWalletAddress = True,
                   piRelatedAddress = 1, piValue = 3\<rparr>],
      ptOutputs = [\<lparr>poFundType = SpecifierClaimOutput, poMaturityHeight = 150,
                    poWalletAddress = True, poRelatedAddress = 9, poValue = 0\<rparr>,
                   minerFeePO 2]\<rparr>"

definition exClaimPT6 :: ProcessedTransaction where
  "exClaimPT6 =
     \<lparr>ptTransaction = exClaimTxn, ptTransactionID = 102, ptConfirmationHeight = 6,
      ptConfirmationTimestamp = 1,
      ptInputs = [\<lparr>piFundType = SpecifierSiafundInput, piWalletAddress = True,
                   piRelatedAddress = 1, piValue = 3\<rparr>],
      ptOutputs = [\<lparr>poFundType = SpecifierClaimOutput, poMaturityHeight = 150,
                    poWalletAddress = True, poRelatedAddress = 9, poValue = 1800\<rparr>,
                   minerFeePO 2]\<rparr>"

section \<open>Frame properties of the loops\<close>

lemmas db_defs = dbPutSiacoinOutput_def dbDeleteSiacoinOutput_def dbPutSiafundOutput_def
  dbDeleteSiafundOutput_def dbPutHistoricOutput_def dbGetHistoricOutput_def
  dbPutHistoricClaimStart_def dbGetHistoricClaimStart_def

lemma updateSiacoinOutputs_frame:
  "updateSiacoinOutputs w tx ds = Inr tx' \<Longrightarrow>
     bucketSiafundOutputs tx' = bucketSiafundOutputs tx
     \<and> bucketHistoricOutputs tx' = bucketHistoricOutputs tx
     \<and> bucketHistoricClaimStarts tx' = bucketHistoricClaimStarts tx
     \<and> kvFault tx' = kvFault tx"
  by (induction ds arbitrary: tx)
     (auto simp: dbPutSiacoinOutput_def dbDeleteSiacoinOutput_def split: if_splits sum.splits)

lemma updateSiafundOutputs_frame:
  "updateSiafundOutputs w tx ds = Inr tx' \<Longrightarrow>
     bucketSiacoinOutputs tx' = bucketSiacoinOutputs tx
     \<and> bucketHistoricOutputs tx' = bucketHistoricOutputs tx
     \<and> bucketHistoricClaimStarts tx' = bucketHistoricClaimStarts tx
     \<and> kvFault tx' = kvFault tx"
  by (induction ds arbitrary: tx)
     (auto simp: dbPutSiafundOutput_def dbDeleteSiafundOutput_def split: if_splits sum.splits)

lemma updateSiafundPool_frame:
  "keys (updateSiafundPool w ds) = keys w
   \<and> processedTransactions (updateSiafundPool w ds) = processedTransactions w
   \<and> processedTransactionMap (updateSiafundPool w ds) = processedTransactionMap w
   \<and> unconfirmedProcessedTransactions (updateSiafundPool w ds) = unconfirmedProcessedTransactions w
   \<and> consensusSetHeight (updateSiafundPool w ds) = consensusSetHeight w
   \<and> tgStopped (updateSiafundPool w ds) = tgStopped w
   \<and> walletLog (updateSiafundPool w ds) = walletLog w"
  by (induction ds arbitrary: w) auto

lemma updateSiafundPool_fold:
  "siafundPool (updateSiafundPool w ds) =
     foldl (\<lambda>p d. if sfpdDirection d = DiffApply then sfpdAdjusted d else sfpdPrevious d)
       (siafundPool w) ds"
  by (induction ds arbitrary: w) auto

lemma historicSiacoinOutputs_frame:
  "historicSiacoinOutputs T w tx txn i scos r = Inr (r', tx') \<Longrightarrow>
     bucketSiacoinOutputs tx' = bucketSiacoinOutputs tx
     \<and> bucketSiafundOutputs tx' = bucketSiafundOutputs tx
     \<and> bucketHistoricClaimStarts tx' = bucketHistoricClaimStarts tx
     \<and> kvFault tx' = kvFault tx"
  by (induction scos arbitrary: tx i r)
     (auto simp: dbPutHistoricOutput_def split: if_splits sum.splits)

lemma historicSiafundOutputs_frame:
  "historicSiafundOutputs T w tx txn i sfos r = Inr (r', tx') \<Longrightarrow>
     bucketSiacoinOutputs tx' = bucketSiacoinOutputs tx
     \<and> bucketSiafundOutputs tx' = bucketSiafundOutputs tx
     \<and> kvFault tx' = kvFault tx"
  by (induction sfos arbitrary: tx i r)
     (auto simp: dbPutHistoricOutput_def dbPutHistoricClaimStart_def Let_def split: if_splits sum.splits)

lemma applyMinerPayouts_frame:
  "applyMinerPayouts T w tx block i mps r = Inr (r', tx') \<Longrightarrow>
     bucketSiacoinOutputs tx' = bucketSiacoinOutputs tx
     \<and> bucketSiafundOutputs tx' = bucketSiafundOutputs tx
     \<and> bucketHistoricClaimStarts tx' = bucketHistoricClaimStarts tx
     \<and> kvFault tx' = kvFault tx"
  by (induction mps arbitrary: tx i r)
     (auto simp: dbPutHistoricOutput_def split: if_splits sum.splits)

lemma sameStatic_refl: "sameStatic w w" by (simp add: sameStatic_def)

lemma sameStatic_trans: "sameStatic a b \<Longrightarrow> sameStatic b c \<Longrightarrow> sameStatic a c"
  by (simp add: sameStatic_def)

lemma isWalletAddress_cong: "keys w' = keys w \<Longrightarrow> isWalletAddress w' = isWalletAddress w"
  by (auto simp: isWalletAddress_def fun_eq_iff)

lemma revertTransaction_static: "sameStatic w (revertTransaction T w txn)"
  by (simp add: revertTransaction_def sameStatic_def Let_def)

lemma revertTransactions_static: "sameStatic w (revertTransactions T w txns)"
proof (induction txns arbitrary: w)
  case Nil show ?case by (simp add: sameStatic_refl)
next
  case (Cons t ts)
  show ?case using sameStatic_trans[OF revertTransaction_static Cons.IH] by simp
qed

lemma revertMinerPayout_static:
  "revertMinerPayout T w block mps = Inr w' \<Longrightarrow> sameStatic w w'"
  by (induction mps) (auto simp: sameStatic_def split: if_splits)

lemma revertBlock_static:
  assumes "revertBlock T w block = Inr w'"
  shows "sameStatic w w'"
proof -
  from assms obtain w1 where
    m: "revertMinerPayout T (revertTransactions T w (rev (Transactions block))) block
          (MinerPayouts block) = Inr w1"
    and w': "w' = w1\<lparr>consensusSetHeight := consensusSetHeight w1 - 1\<rparr>"
    by (auto simp: revertBlock_def split: sum.splits)
  have "sameStatic w w1"
    using sameStatic_trans[OF revertTransactions_static revertMinerPayout_static[OF m]] .
  then show ?thesis by (simp add: w' sameStatic_def)
qed

lemma revertBlocks_static: "revertBlocks T w blocks = Inr w' \<Longrightarrow> sameStatic w w'"
proof (induction blocks arbitrary: w)
  case Nil then show ?case by (simp add: sameStatic_refl)
next
  case (Cons b bs)
  then show ?case
    by (auto split: sum.splits dest!: revertBlock_static intro: sameStatic_trans)
qed

lemma appendProcessed_static: "sameStatic w (appendProcessed w pt)"
  by (simp add: appendProcessed_def sameStatic_def)

lemma applyTransaction_static:
  "applyTransaction T w tx block txn = (w', r) \<Longrightarrow> sameStatic w w'"
  unfolding applyTransaction_def
  by (auto split: sum.splits prod.splits if_splits simp: sameStatic_refl appendProcessed_static)

lemma applyTransactions_static:
  "applyTransactions T w tx block txns = (w', r) \<Longrightarrow> sameStatic w w'"
proof (induction txns arbitrary: w tx)
  case Nil then show ?case by (simp add: sameStatic_refl)
next
  case (Cons t ts)
  then show ?case
    by (auto split: sum.splits prod.splits dest!: applyTransaction_static intro: sameStatic_trans)
qed

lemma applyBlock_static: "applyBlock T w tx block = (w', r) \<Longrightarrow> sameStatic w w'"
  unfolding applyBlock_def Let_def
  by (auto split: sum.splits prod.splits if_splits dest!: applyTransactions_static
      simp: sameStatic_def appendProcessed_def)

lemma applyHistory_static: "applyHistory T w tx blocks = (w', r) \<Longrightarrow> sameStatic w w'"
proof (induction blocks arbitrary: w tx)
  case Nil then show ?case by (simp add: sameStatic_refl)
next
  case (Cons b bs)
  then show ?case
    by (auto split: sum.splits prod.splits dest!: applyBlock_static intro: sameStatic_trans)
qed

lemma sameConfirmed_refl: "sameConfirmed tx tx" by (simp add: sameConfirmed_def)

lemma sameConfirmed_trans: "sameConfirmed a b \<Longrightarrow> sameConfirmed b c \<Longrightarrow> sameConfirmed a c"
  by (simp add: sameConfirmed_def)

section \<open>Processing a change, case by case\<close>

lemma applyTransaction_confirmed:
  "applyTransaction T w tx block txn = (w', Inr tx') \<Longrightarrow> sameConfirmed tx tx'"
  unfolding applyTransaction_def
  by (auto split: sum.splits prod.splits if_splits
      dest!: historicSiacoinOutputs_frame historicSiafundOutputs_frame simp: sameConfirmed_def)

lemma applyTransactions_confirmed:
  "applyTransactions T w tx block txns = (w', Inr tx') \<Longrightarrow> sameConfirmed tx tx'"
proof (induction txns arbitrary: w tx)
  case Nil then show ?case by (simp add: sameConfirmed_refl)
next
  case (Cons t ts)
  then show ?case
    by (auto split: sum.splits prod.splits dest!: applyTransaction_confirmed
        intro: sameConfirmed_trans)
qed

lemma applyBlock_confirmed:
  "applyBlock T w tx block = (w', Inr tx') \<Longrightarrow> sameConfirmed tx tx'"
  unfolding applyBlock_def Let_def
  by (auto split: sum.splits prod.splits if_splits
      dest!: applyTransactions_confirmed applyMinerPayouts_frame simp: sameConfirmed_def)

lemma applyHistory_confirmed:
  "applyHistory T w tx blocks = (w', Inr tx') \<Longrightarrow> sameConfirmed tx tx'"
proof (induction blocks arbitrary: w tx)
  case Nil then show ?case by (simp add: sameConfirmed_refl)
next
  case (Cons b bs)
  then show ?case
    by (auto split: sum.splits prod.splits dest!: applyBlock_confirmed intro: sameConfirmed_trans)
qed

text \<open>What a processed change does, case by case.\<close>

lemma processChangeTx_cases:
  assumes "processChangeTx T w cc tx = Inr (w1, r)"
  shows "(\<exists>err. snd (updateConfirmedSet w tx cc) = Inl err \<and> w1 = w \<and> r = Inl err)
    \<or> (\<exists>tx1 w2.
          updateConfirmedSet w tx cc = (updateSiafundPool w (SiafundPoolDiffs cc), Inr tx1)
          \<and> revertHistory T (updateSiafundPool w (SiafundPoolDiffs cc)) cc = Inr w2
          \<and> applyHistory T w2 tx1 (AppliedBlocks cc) = (w1, r))"
  using assms
  unfolding processChangeTx_def updateConfirmedSet_def
  by (auto split: sum.splits prod.splits)

lemma ProcessConsensusChange_cases:
  assumes "ProcessConsensusChange T w db cc = Inr (w', db')"
  shows "(tgStopped w \<and> w' = w \<and> db' = db)
    \<or> (\<not> tgStopped w \<and> (\<exists>w1 r. processChangeTx T w cc db = Inr (w1, r)
          \<and> w' = logError w1 ''ERROR: failed to add consensus change: '' r
          \<and> db' = dbUpdate db r))"
  using assms
  unfolding ProcessConsensusChange_def
  by (auto split: if_splits sum.splits prod.splits)

lemma logError_static:
  "keys (logError w msg r) = keys w \<and> siafundPool (logError w msg r) = siafundPool w
   \<and> processedTransactions (logError w msg r) = processedTransactions w
   \<and> processedTransactionMap (logError w msg r) = processedTransactionMap w
   \<and> unconfirmedProcessedTransactions (logError w msg r) = unconfirmedProcessedTransactions w
   \<and> consensusSetHeight (logError w msg r) = consensusSetHeight w
   \<and> tgStopped (logError w msg r) = tgStopped w"
  by (simp add: logError_def split: sum.splits)

lemma processChangeTx_static:
  assumes "processChangeTx T w cc tx = Inr (w1, r)"
  shows "keys w1 = keys w \<and> tgStopped w1 = tgStopped w \<and> walletLog w1 = walletLog w
     \<and> unconfirmedProcessedTransactions w1 = unconfirmedProcessedTransactions w"
  using processChangeTx_cases[OF assms]
  by (auto simp: updateSiafundPool_frame revertHistory_def sameStatic_def
      dest!: revertBlocks_static applyHistory_static)

lemma ProcessConsensusChange_keys:
  assumes "ProcessConsensusChange T w db cc = Inr (w', db')"
  shows "keys w' = keys w"
  using ProcessConsensusChange_cases[OF assms]
  by (auto simp: logError_static dest!: processChangeTx_static)

section \<open>The confirmed siacoin outputs belong to the wallet\<close>

lemma updateSiacoinOutputs_owned:
  "updateSiacoinOutputs w tx ds = Inr tx' \<Longrightarrow> owned w (bucketSiacoinOutputs tx)
     \<Longrightarrow> owned w (bucketSiacoinOutputs tx')"
proof (induction ds arbitrary: tx)
  case Nil then show ?case by simp
next
  case (Cons d ds)
  show ?case
  proof (cases "isWalletAddress w (scoUnlockHash (scodSiacoinOutput d))")
    case False
    with Cons show ?thesis by simp
  next
    case True
    with Cons.prems(1) obtain tx1 where
      step: "(if scodDirection d = DiffApply
               then dbPutSiacoinOutput tx (scodID d) (scodSiacoinOutput d)
               else dbDeleteSiacoinOutput tx (scodID d)) = Inr tx1"
      and rest: "updateSiacoinOutputs w tx1 ds = Inr tx'"
      by (auto split: sum.splits)
    from step True Cons.prems(2) have "owned w (bucketSiacoinOutputs tx1)"
      by (auto simp: owned_def dbPutSiacoinOutput_def dbDeleteSiacoinOutput_def split: if_splits)
    with Cons.IH rest show ?thesis by blast
  qed
qed

lemma updateSiacoinOutputs_filter:
  "updateSiacoinOutputs w tx ds =
     updateSiacoinOutputs w tx
       (filter (\<lambda>diff. isWalletAddress w (scoUnlockHash (scodSiacoinOutput diff))) ds)"
  by (induction ds arbitrary: tx) (auto split: sum.splits)

lemma ProcessConsensusChange_owned:
  assumes "ProcessConsensusChange T w db cc = Inr (w', db')"
    and "owned w (bucketSiacoinOutputs db)"
  shows "owned w' (bucketSiacoinOutputs db')"
proof -
  have k: "keys w' = keys w" by (rule ProcessConsensusChange_keys[OF assms(1)])
  have o: "\<And>b. owned w' b = owned w b"
    by (simp add: owned_def isWalletAddress_cong[OF k])
  from ProcessConsensusChange_cases[OF assms(1)]
  consider "db' = db"
    | w1 r where "processChangeTx T w cc db = Inr (w1, r)" "db' = dbUpdate db r"
    by blast
  then consider "db' = db"
    | tx1 w2 w3 r where
      "updateConfirmedSet w db cc = (updateSiafundPool w (SiafundPoolDiffs cc), Inr tx1)"
      "applyHistory T w2 tx1 (AppliedBlocks cc) = (w3, r)" "db' = dbUpdate db r"
  proof cases
    case 1 then show ?thesis using that by blast
  next
    case 2
    from processChangeTx_cases[OF 2(1)] 2(2) show ?thesis
      using that by (auto simp: dbUpdate_def)
  qed
  then show ?thesis
  proof cases
    case 1
    with assms(2) o show ?thesis by simp
  next
    case 2
    show ?thesis
    proof (cases r)
      case (Inl err)
      with 2 assms(2) o show ?thesis by (simp add: dbUpdate_def)
    next
      case (Inr tx3)
      from 2(1) obtain tx0 where
        a: "updateSiacoinOutputs w db (SiacoinOutputDiffs cc) = Inr tx0"
        and b: "updateSiafundOutputs w tx0 (SiafundOutputDiffs cc) = Inr tx1"
        by (auto simp: updateConfirmedSet_def split: sum.splits)
      have "owned w (bucketSiacoinOutputs tx0)"
        by (rule updateSiacoinOutputs_owned[OF a assms(2)])
      moreover have "bucketSiacoinOutputs tx1 = bucketSiacoinOutputs tx0"
        using updateSiafundOutputs_frame[OF b] by simp
      moreover have "bucketSiacoinOutputs tx3 = bucketSiacoinOutputs tx1"
        using applyHistory_confirmed[of T w2 tx1 "AppliedBlocks cc" w3 tx3] 2(2) Inr
        by (simp add: sameConfirmed_def)
      ultimately show ?thesis using 2(3) Inr o by (simp add: dbUpdate_def)
    qed
  qed
qed

lemma processChanges_owned:
  "processChanges T w db ccs = Inr (w', db') \<Longrightarrow> owned w (bucketSiacoinOutputs db)
     \<Longrightarrow> owned w' (bucketSiacoinOutputs db')"
proof (induction ccs arbitrary: w db)
  case Nil then show ?case by simp
next
  case (Cons cc ccs)
  from Cons.prems(1) obtain w1 db1 where
    s: "ProcessConsensusChange T w db cc = Inr (w1, db1)"
    and r: "processChanges T w1 db1 ccs = Inr (w', db')"
    by (auto split: sum.splits)
  show ?case
    by (rule Cons.IH[OF r ProcessConsensusChange_owned[OF s Cons.prems(2)]])
qed

text \<open>
  Claim C8. After any sequence of processed consensus changes that starts from an
  empty \<open>SiacoinOutputs\<close> bucket, the unlock hash of every output stored in the
  bucket is a wallet address; and the loop over the siacoin output diffs acts
  only on the diffs whose output address is a wallet address: it skips all
  others, so it runs as on the list of the wallet's diffs alone.
\<close>

theorem C8_siacoin_outputs_owned:
  "(processChanges T w db ccs = Inr (w', db') \<longrightarrow> bucketSiacoinOutputs db = Map.empty \<longrightarrow>
      (\<forall>id' out. bucketSiacoinOutputs db' id' = Some out \<longrightarrow>
          isWalletAddress w' (scoUnlockHash out)))
   \<and> updateSiacoinOutputs w tx diffs =
       updateSiacoinOutputs w tx
         (filter (\<lambda>diff. isWalletAddress w (scoUnlockHash (scodSiacoinOutput diff))) diffs)"
proof (intro conjI impI)
  assume a: "processChanges T w db ccs = Inr (w', db')" and e: "bucketSiacoinOutputs db = Map.empty"
  have "owned w (bucketSiacoinOutputs db)" by (simp add: e owned_def)
  from processChanges_owned[OF a this]
  show "\<forall>id' out. bucketSiacoinOutputs db' id' = Some out \<longrightarrow>
          isWalletAddress w' (scoUnlockHash out)"
    by (simp add: owned_def)
next
  show "updateSiacoinOutputs w tx diffs =
       updateSiacoinOutputs w tx
         (filter (\<lambda>diff. isWalletAddress w (scoUnlockHash (scodSiacoinOutput diff))) diffs)"
    by (rule updateSiacoinOutputs_filter)
qed

section \<open>The siafund pool\<close>

lemma foldl_const_last:
  "ds \<noteq> [] \<Longrightarrow> foldl (\<lambda>p d. g d) p ds = g (last ds)"
  by (induction ds arbitrary: p) auto

lemma processChangeTx_pool:
  assumes "processChangeTx T w cc tx = Inr (w1, r)"
    and "snd (updateConfirmedSet w tx cc) = Inr tx1"
  shows "siafundPool w1 = siafundPool (updateSiafundPool w (SiafundPoolDiffs cc))"
  using processChangeTx_cases[OF assms(1)] assms(2)
  by (auto simp: revertHistory_def sameStatic_def
      dest!: revertBlocks_static applyHistory_static)

text \<open>
  Claim C6. When a consensus change is processed (the wallet is not stopped and
  the diff loops of the confirmed-set updater meet no storage error), the siafund
  pool afterwards is the fold of the pool diffs in delivery order, where an apply
  diff sets the pool to its adjusted value and a revert diff to its previous
  value. Equivalently: with no pool diff the pool is unchanged, otherwise it is
  the adjusted value of the last diff if that is an apply diff and the previous
  value of the last diff if it is a revert diff.
\<close>

theorem C6_siafund_pool_fold:
  assumes "ProcessConsensusChange T w db cc = Inr (w', db')"
    and "\<not> tgStopped w"
    and "snd (updateConfirmedSet w db cc) = Inr tx1"
  shows "siafundPool w' =
           foldl (\<lambda>pool diff. if sfpdDirection diff = DiffApply then sfpdAdjusted diff
                               else sfpdPrevious diff)
             (siafundPool w) (SiafundPoolDiffs cc)
         \<and> siafundPool w' =
             (if SiafundPoolDiffs cc = [] then siafundPool w
              else if sfpdDirection (last (SiafundPoolDiffs cc)) = DiffApply
                   then sfpdAdjusted (last (SiafundPoolDiffs cc))
                   else sfpdPrevious (last (SiafundPoolDiffs cc)))"
proof -
  from ProcessConsensusChange_cases[OF assms(1)] assms(2)
  obtain w1 r where p: "processChangeTx T w cc db = Inr (w1, r)"
    and w': "w' = logError w1 ''ERROR: failed to add consensus change: '' r"
    by blast
  have "siafundPool w' = siafundPool w1" by (simp add: w' logError_static)
  also have "\<dots> = siafundPool (updateSiafundPool w (SiafundPoolDiffs cc))"
    by (rule processChangeTx_pool[OF p assms(3)])
  finally have f: "siafundPool w' =
           foldl (\<lambda>pool diff. if sfpdDirection diff = DiffApply then sfpdAdjusted diff
                               else sfpdPrevious diff)
             (siafundPool w) (SiafundPoolDiffs cc)"
    by (simp add: updateSiafundPool_fold)
  show ?thesis
  proof (cases "SiafundPoolDiffs cc = []")
    case True
    with f show ?thesis by simp
  next
    case False
    from f foldl_const_last[OF False,
        of "\<lambda>diff. if sfpdDirection diff = DiffApply then sfpdAdjusted diff
                               else sfpdPrevious diff" "siafundPool w"]
    show ?thesis using False by simp
  qed
qed

section \<open>The frame of a mempool update\<close>

lemma unconfirmedTransaction_wallet:
  "unconfirmedTransaction T w tx txn = (w', r) \<Longrightarrow> sameButUnconfirmed w w'"
  unfolding unconfirmedTransaction_def
  by (auto split: sum.splits prod.splits if_splits simp: sameButUnconfirmed_def)

lemma unconfirmedTransactions_wallet:
  "unconfirmedTransactions T w tx txns = (w', r) \<Longrightarrow> sameButUnconfirmed w w'"
proof (induction txns arbitrary: w tx)
  case Nil then show ?case by (simp add: sameButUnconfirmed_def)
next
  case (Cons t ts)
  then show ?case
    by (auto split: sum.splits prod.splits dest!: unconfirmedTransaction_wallet
        simp: sameButUnconfirmed_def)
qed

lemma historicSiacoinOutputs_changes:
  "historicSiacoinOutputs T w tx txn i scos r = Inr (r', tx') \<Longrightarrow>
     bucketHistoricOutputs tx' id' \<noteq> bucketHistoricOutputs tx id' \<Longrightarrow>
     \<exists>j<length scos. id' = SiacoinOutputID T txn (i + j)
        \<and> bucketHistoricOutputs tx' id' \<noteq> None"
proof (induction scos arbitrary: tx i r)
  case Nil then show ?case by simp
next
  case (Cons sco scos)
  from Cons.prems(1) obtain tx1 where
    p: "dbPutHistoricOutput tx (SiacoinOutputID T txn i) (scoValue sco) = Inr tx1"
    and rest: "historicSiacoinOutputs T w tx1 txn (Suc i) scos
                 (r \<or> isWalletAddress w (scoUnlockHash sco)) = Inr (r', tx')"
    by (auto split: sum.splits)
  show ?case
  proof (cases "bucketHistoricOutputs tx' id' = bucketHistoricOutputs tx1 id'")
    case False
    from Cons.IH[OF rest False] obtain j where
      "j < length scos" "id' = SiacoinOutputID T txn (Suc i + j)"
      "bucketHistoricOutputs tx' id' \<noteq> None" by blast
    then show ?thesis by (intro exI[of _ "Suc j"]) simp
  next
    case True
    with Cons.prems(2) have "bucketHistoricOutputs tx1 id' \<noteq> bucketHistoricOutputs tx id'"
      by simp
    with p have "id' = SiacoinOutputID T txn i \<and> bucketHistoricOutputs tx1 id' \<noteq> None"
      by (auto simp: dbPutHistoricOutput_def split: if_splits)
    with True show ?thesis by (intro exI[of _ 0]) auto
  qed
qed

lemma unconfirmedTransaction_db:
  assumes "unconfirmedTransaction T w tx txn = (w', Inr tx')"
  shows "sameButHistoricOutputs tx tx'
     \<and> (\<forall>id'. bucketHistoricOutputs tx' id' \<noteq> bucketHistoricOutputs tx id' \<longrightarrow>
           (\<exists>j<length (SiacoinOutputs txn). id' = SiacoinOutputID T txn j
              \<and> bucketHistoricOutputs tx' id' \<noteq> None))"
proof -
  from assms obtain r' where
    h: "historicSiacoinOutputs T w tx txn 0 (SiacoinOutputs txn)
             (relevantSiacoinInputs w (SiacoinInputs txn) False) = Inr (r', tx')"
    unfolding unconfirmedTransaction_def
    by (auto split: sum.splits prod.splits if_splits)
  from historicSiacoinOutputs_frame[OF h] historicSiacoinOutputs_changes[OF h]
  show ?thesis by (auto simp: sameButHistoricOutputs_def)
qed

lemma unconfirmedTransactions_db:
  "unconfirmedTransactions T w tx txns = (w', Inr tx') \<Longrightarrow>
     sameButHistoricOutputs tx tx'
     \<and> (\<forall>id'. bucketHistoricOutputs tx' id' \<noteq> bucketHistoricOutputs tx id' \<longrightarrow>
           (\<exists>txn\<in>set txns. \<exists>j<length (SiacoinOutputs txn). id' = SiacoinOutputID T txn j
              \<and> bucketHistoricOutputs tx' id' \<noteq> None))"
proof (induction txns arbitrary: w tx)
  case Nil then show ?case by (simp add: sameButHistoricOutputs_def)
next
  case (Cons t ts)
  from Cons.prems obtain w1 tx1 where
    s: "unconfirmedTransaction T w tx t = (w1, Inr tx1)"
    and r: "unconfirmedTransactions T w1 tx1 ts = (w', Inr tx')"
    by (auto split: sum.splits prod.splits)
  note a = unconfirmedTransaction_db[OF s] and b = Cons.IH[OF r]
  have "sameButHistoricOutputs tx tx'"
    using a b by (simp add: sameButHistoricOutputs_def)
  moreover have "\<exists>txn\<in>set (t # ts). \<exists>j<length (SiacoinOutputs txn).
       id' = SiacoinOutputID T txn j \<and> bucketHistoricOutputs tx' id' \<noteq> None"
    if c: "bucketHistoricOutputs tx' id' \<noteq> bucketHistoricOutputs tx id'" for id'
  proof (cases "bucketHistoricOutputs tx' id' = bucketHistoricOutputs tx1 id'")
    case False
    with b show ?thesis by auto
  next
    case True
    with c a show ?thesis by auto
  qed
  ultimately show ?case by blast
qed

text \<open>
  Claim C10. A mempool update changes only the unconfirmed list and the
  \<open>HistoricOutputs\<close> bucket: the processed transactions and their index, the siafund
  pool, the consensus height, the keys and the buckets \<open>SiacoinOutputs\<close>,
  \<open>SiafundOutputs\<close> and \<open>HistoricClaimStarts\<close> are as before, and an entry of
  \<open>HistoricOutputs\<close> that differs afterwards is a present entry stored under the id
  of a siacoin output of one of the delivered transactions. The unconfirmed list
  is replaced wholesale: the new list is the one that the update builds from an
  empty list.
\<close>

theorem C10_unconfirmed_frame:
  assumes "ReceiveUpdatedUnconfirmedTransactions T w db txns = (w', db')"
  shows "processedTransactions w' = processedTransactions w
     \<and> processedTransactionMap w' = processedTransactionMap w
     \<and> siafundPool w' = siafundPool w
     \<and> consensusSetHeight w' = consensusSetHeight w
     \<and> keys w' = keys w
     \<and> bucketSiacoinOutputs db' = bucketSiacoinOutputs db
     \<and> bucketSiafundOutputs db' = bucketSiafundOutputs db
     \<and> bucketHistoricClaimStarts db' = bucketHistoricClaimStarts db
     \<and> (\<forall>id'. bucketHistoricOutputs db' id' \<noteq> bucketHistoricOutputs db id' \<longrightarrow>
           (\<exists>txn\<in>set txns. \<exists>j<length (SiacoinOutputs txn). id' = SiacoinOutputID T txn j
              \<and> bucketHistoricOutputs db' id' \<noteq> None))
     \<and> (\<not> tgStopped w \<longrightarrow>
          unconfirmedProcessedTransactions w' =
            unconfirmedProcessedTransactions
              (fst (ReceiveUpdatedUnconfirmedTransactions T
                      (w\<lparr>unconfirmedProcessedTransactions := []\<rparr>) db txns)))"
proof (cases "tgStopped w")
  case True
  with assms show ?thesis by (simp add: ReceiveUpdatedUnconfirmedTransactions_def)
next
  case False
  with assms obtain w1 r where
    u: "unconfirmedTransactions T (w\<lparr>unconfirmedProcessedTransactions := []\<rparr>) db txns = (w1, r)"
    and w': "w' = logError w1 ''ERROR: failed to add unconfirmed transactions: '' r"
    and db': "db' = dbUpdate db r"
    by (auto simp: ReceiveUpdatedUnconfirmedTransactions_def split: prod.splits)
  from unconfirmedTransactions_wallet[OF u] w'
  have mem: "processedTransactions w' = processedTransactions w
     \<and> processedTransactionMap w' = processedTransactionMap w
     \<and> siafundPool w' = siafundPool w
     \<and> consensusSetHeight w' = consensusSetHeight w
     \<and> keys w' = keys w"
    by (simp add: sameButUnconfirmed_def logError_static)
  from assms False have whole: "unconfirmedProcessedTransactions w' =
            unconfirmedProcessedTransactions
              (fst (ReceiveUpdatedUnconfirmedTransactions T
                      (w\<lparr>unconfirmedProcessedTransactions := []\<rparr>) db txns))"
    by (simp add: ReceiveUpdatedUnconfirmedTransactions_def)
  show ?thesis
  proof (cases r)
    case (Inl err)
    with db' mem whole show ?thesis by (simp add: dbUpdate_def)
  next
    case (Inr tx')
    with db' have e: "db' = tx'" by (simp add: dbUpdate_def)
    from unconfirmedTransactions_db[OF u[unfolded Inr]] mem e whole
    show ?thesis by (simp add: sameButHistoricOutputs_def)
  qed
qed

section \<open>Scenario S1\<close>

lemmas ex_defs = exTypes_def exWallet_def exDB_def exReceiveTxn_def exReceiveBlock_def
  exReceiveChange_def

lemmas run_defs = ProcessConsensusChange_def processChangeTx_def updateConfirmedSet_def
  revertHistory_def applyBlock_def applyTransaction_def logError_def dbUpdate_def
  isWalletAddress_def dbPutSiacoinOutput_def dbDeleteSiacoinOutput_def dbPutSiafundOutput_def
  dbDeleteSiafundOutput_def dbPutHistoricOutput_def dbGetHistoricOutput_def
  dbPutHistoricClaimStart_def dbGetHistoricClaimStart_def relevantSiacoinInputs_def
  relevantSiafundInputs_def appendProcessed_def Let_def

lemma exReceive_runs:
  "\<exists>w' db'. ProcessConsensusChange exTypes exWallet exDB exReceiveChange = Inr (w', db')"
  by (simp add: ex_defs run_defs)

text \<open>C6 at scenario S1: the last pool diff is a revert diff with previous value 400.\<close>

theorem C6_siafund_pool_fold_witness:
  "\<exists>w' db' tx1.
     ProcessConsensusChange exTypes exWallet exDB exReceiveChange = Inr (w', db')
     \<and> \<not> tgStopped exWallet
     \<and> snd (updateConfirmedSet exWallet exDB exReceiveChange) = Inr tx1
     \<and> siafundPool w' = 400"
proof -
  obtain w' db' where
    a: "ProcessConsensusChange exTypes exWallet exDB exReceiveChange = Inr (w', db')"
    using exReceive_runs by blast
  have b: "\<not> tgStopped exWallet" by (simp add: exWallet_def)
  obtain tx1 where c: "snd (updateConfirmedSet exWallet exDB exReceiveChange) = Inr tx1"
    by (simp add: ex_defs run_defs)
  from C6_siafund_pool_fold[OF a b c] have "siafundPool w' = 400"
    by (simp add: ex_defs)
  with a b c show ?thesis by blast
qed

text \<open>C8 at scenario S1: only the output paid to the wallet is stored.\<close>

theorem C8_siacoin_outputs_owned_witness:
  "\<exists>w' db'. processChanges exTypes exWallet exDB [exReceiveChange] = Inr (w', db')
     \<and> bucketSiacoinOutputs exDB = Map.empty
     \<and> bucketSiacoinOutputs db' 1010 = Some \<lparr>scoValue = 100, scoUnlockHash = 1\<rparr>
     \<and> bucketSiacoinOutputs db' 1011 = None
     \<and> (\<forall>id' out. bucketSiacoinOutputs db' id' = Some out \<longrightarrow>
          isWalletAddress w' (scoUnlockHash out))"
proof -
  obtain w' db' where
    a: "processChanges exTypes exWallet exDB [exReceiveChange] = Inr (w', db')"
    using exReceive_runs by auto
  have e: "bucketSiacoinOutputs exDB = Map.empty" by (simp add: exDB_def)
  from a have "bucketSiacoinOutputs db' 1010 = Some \<lparr>scoValue = 100, scoUnlockHash = 1\<rparr>
     \<and> bucketSiacoinOutputs db' 1011 = None"
    by (auto simp add: ex_defs run_defs)
  moreover from C8_siacoin_outputs_owned[of exTypes exWallet exDB "[exReceiveChange]" w' db'] a e
  have "\<forall>id' out. bucketSiacoinOutputs db' id' = Some out \<longrightarrow>
          isWalletAddress w' (scoUnlockHash out)" by blast
  ultimately show ?thesis using a e by blast
qed

text \<open>C10 when the transaction of S1 arrives from the pool.\<close>

theorem C10_unconfirmed_frame_witness:
  "\<exists>w' db'. ReceiveUpdatedUnconfirmedTransactions exTypes exWallet exDB [exReceiveTxn] = (w', db')
     \<and> processedTransactions w' = processedTransactions exWallet
     \<and> keys w' = keys exWallet
     \<and> bucketSiacoinOutputs db' = bucketSiacoinOutputs exDB
     \<and> bucketHistoricOutputs db' 1010 = Some 100
     \<and> bucketHistoricOutputs exDB 1010 = None
     \<and> (\<exists>txn\<in>set [exReceiveTxn]. \<exists>j<length (SiacoinOutputs txn).
            1010 = SiacoinOutputID exTypes txn j)
     \<and> \<not> tgStopped exWallet
     \<and> unconfirmedProcessedTransactions w' =
          unconfirmedProcessedTransactions
            (fst (ReceiveUpdatedUnconfirmedTransactions exTypes
                    (exWallet\<lparr>unconfirmedProcessedTransactions := []\<rparr>) exDB [exReceiveTxn]))"
proof -
  obtain w' db' where
    a: "ReceiveUpdatedUnconfirmedTransactions exTypes exWallet exDB [exReceiveTxn] = (w', db')"
    by (cases "ReceiveUpdatedUnconfirmedTransactions exTypes exWallet exDB [exReceiveTxn]")
  from a have h: "bucketHistoricOutputs db' 1010 = Some 100"
    by (auto simp add: ReceiveUpdatedUnconfirmedTransactions_def unconfirmedTransaction_def
        ex_defs run_defs)
  have n: "bucketHistoricOutputs exDB 1010 = None" by (simp add: exDB_def)
  have t: "\<not> tgStopped exWallet" by (simp add: exWallet_def)
  note f = C10_unconfirmed_frame[OF a]
  from f have "bucketHistoricOutputs db' 1010 \<noteq> bucketHistoricOutputs exDB 1010 \<longrightarrow>
           (\<exists>txn\<in>set [exReceiveTxn]. \<exists>j<length (SiacoinOutputs txn).
              1010 = SiacoinOutputID exTypes txn j \<and> bucketHistoricOutputs db' 1010 \<noteq> None)"
    by blast
  with h n have "\<exists>txn\<in>set [exReceiveTxn]. \<exists>j<length (SiacoinOutputs txn).
            1010 = SiacoinOutputID exTypes txn j" by auto
  moreover from f t have "unconfirmedProcessedTransactions w' =
          unconfirmedProcessedTransactions
            (fst (ReceiveUpdatedUnconfirmedTransactions exTypes
                    (exWallet\<lparr>unconfirmedProcessedTransactions := []\<rparr>) exDB [exReceiveTxn]))"
    by blast
  ultimately show ?thesis using f h n a t
    by (intro exI[of _ w'] exI[of _ db']) simp
qed

section \<open>Relevance and the claim output of a siafund input\<close>

lemma isWalletAddress_dom: "isWalletAddress w uh \<longleftrightarrow> uh \<in> dom (keys w)"
  by (auto simp: isWalletAddress_def)

lemma relevantSiacoinInputs_iff:
  "relevantSiacoinInputs w scis r \<longleftrightarrow>
     r \<or> (\<exists>sci\<in>set scis. isWalletAddress w (UnlockHash (sciUnlockConditions sci)))"
  unfolding relevantSiacoinInputs_def
  by (induction scis arbitrary: r) auto

lemma relevantSiafundInputs_iff:
  "relevantSiafundInputs w sfis r \<longleftrightarrow>
     r \<or> (\<exists>sfi\<in>set sfis. isWalletAddress w (UnlockHash (sfiUnlockConditions sfi)))"
  unfolding relevantSiafundInputs_def
  by (induction sfis arbitrary: r) auto

lemma historicSiacoinOutputs_relevant:
  "historicSiacoinOutputs T w tx txn i scos r = Inr (r', tx') \<Longrightarrow>
     r' \<longleftrightarrow> r \<or> (\<exists>sco\<in>set scos. isWalletAddress w (scoUnlockHash sco))"
  by (induction scos arbitrary: tx i r) (auto split: sum.splits)

lemma historicSiafundOutputs_relevant:
  "historicSiafundOutputs T w tx txn i sfos r = Inr (r', tx') \<Longrightarrow>
     r' \<longleftrightarrow> r \<or> (\<exists>sfo\<in>set sfos. isWalletAddress w (sfoUnlockHash sfo))"
  by (induction sfos arbitrary: tx i r) (auto simp: Let_def split: sum.splits)

lemma processedSiafundInputs_nth:
  "processedSiafundInputs T w tx sfis = Inr sfs \<Longrightarrow>
     length sfs = length sfis
     \<and> (\<forall>j<length sfis.
          \<exists>s v. bucketHistoricClaimStarts tx (sfiParentID (sfis ! j)) = Some s
            \<and> bucketHistoricOutputs tx (sfiParentID (sfis ! j)) = Some v
            \<and> snd (sfs ! j) =
                \<lparr>poFundType = SpecifierClaimOutput,
                 poMaturityHeight = consensusSetHeight w + MaturityDelay T,
                 poWalletAddress = isWalletAddress w (UnlockHash (sfiUnlockConditions (sfis ! j))),
                 poRelatedAddress = sfiClaimUnlockHash (sfis ! j),
                 poValue = (siafundPool w - s) * v\<rparr>)"
proof (induction sfis arbitrary: sfs)
  case Nil then show ?case by simp
next
  case (Cons sfi sfis)
  from Cons.prems obtain v s rest where
    v: "bucketHistoricOutputs tx (sfiParentID sfi) = Some v"
    and s: "bucketHistoricClaimStarts tx (sfiParentID sfi) = Some s"
    and rest: "processedSiafundInputs T w tx sfis = Inr rest"
    and sfs: "snd (hd sfs) =
                \<lparr>poFundType = SpecifierClaimOutput,
                 poMaturityHeight = consensusSetHeight w + MaturityDelay T,
                 poWalletAddress = isWalletAddress w (UnlockHash (sfiUnlockConditions sfi)),
                 poRelatedAddress = sfiClaimUnlockHash sfi,
                 poValue = (siafundPool w - s) * v\<rparr>" "tl sfs = rest" "sfs \<noteq> []"
    by (auto simp: dbGetHistoricOutput_def dbGetHistoricClaimStart_def Sub_def Mul_def Let_def
        split: sum.splits option.splits)
  from sfs obtain p where sfs': "sfs = p # rest" by (cases sfs) auto
  note ih = Cons.IH[OF rest]
  have "length sfs = length (sfi # sfis)" using ih sfs' by simp
  moreover have "\<exists>s v. bucketHistoricClaimStarts tx (sfiParentID ((sfi # sfis) ! j)) = Some s
            \<and> bucketHistoricOutputs tx (sfiParentID ((sfi # sfis) ! j)) = Some v
            \<and> snd (sfs ! j) =
                \<lparr>poFundType = SpecifierClaimOutput,
                 poMaturityHeight = consensusSetHeight w + MaturityDelay T,
                 poWalletAddress =
                   isWalletAddress w (UnlockHash (sfiUnlockConditions ((sfi # sfis) ! j))),
                 poRelatedAddress = sfiClaimUnlockHash ((sfi # sfis) ! j),
                 poValue = (siafundPool w - s) * v\<rparr>"
    if "j < length (sfi # sfis)" for j
  proof (cases j)
    case 0
    with v s sfs sfs' show ?thesis by simp
  next
    case (Suc k)
    with that ih sfs' show ?thesis by simp
  qed
  ultimately show ?case by blast
qed

text \<open>What a successful, relevant run of the loop body appends.\<close>

lemma applyTransaction_appended:
  assumes "applyTransaction T w tx block txn = (w', r)"
    and "processedTransactions w' \<noteq> processedTransactions w"
  shows "\<exists>tx' scins sfs.
           r = Inr tx'
           \<and> processedSiacoinInputs w tx' (SiacoinInputs txn) = Inr scins
           \<and> processedSiafundInputs T w tx' (SiafundInputs txn) = Inr sfs
           \<and> w' = appendProcessed w
                    \<lparr>ptTransaction = txn,
                     ptTransactionID = TransactionID T txn,
                     ptConfirmationHeight = consensusSetHeight w,
                     ptConfirmationTimestamp = Timestamp block,
                     ptInputs = scins @ map fst sfs,
                     ptOutputs =
                       map (siacoinOutputPO w (consensusSetHeight w)) (SiacoinOutputs txn)
                       @ map snd sfs
                       @ map (siafundOutputPO w) (SiafundOutputs txn)
                       @ map minerFeePO (MinerFees txn)\<rparr>"
  using assms unfolding applyTransaction_def
  by (auto split: sum.splits prod.splits if_splits)

text \<open>
  The output synthesized for the \<open>j\<close>-th siafund input of an appended processed
  transaction: it follows the siacoin outputs, in the order of the siafund inputs.
\<close>

lemma applyTransaction_claim_output:
  assumes "applyTransaction T w tx block txn = (w', Inr tx')"
    and "processedTransactions w' = processedTransactions w @ [pt]"
    and "j < length (SiafundInputs txn)"
    and "dbGetHistoricClaimStart tx' (sfiParentID (SiafundInputs txn ! j)) = Inr s"
    and "dbGetHistoricOutput tx' (sfiParentID (SiafundInputs txn ! j)) = Inr v"
  shows "ptOutputs pt ! (length (SiacoinOutputs txn) + j) =
           \<lparr>poFundType = SpecifierClaimOutput,
            poMaturityHeight = consensusSetHeight w + MaturityDelay T,
            poWalletAddress =
              isWalletAddress w (UnlockHash (sfiUnlockConditions (SiafundInputs txn ! j))),
            poRelatedAddress = sfiClaimUnlockHash (SiafundInputs txn ! j),
            poValue = (siafundPool w - s) * v\<rparr>
         \<and> (s \<le> siafundPool w \<longrightarrow>
              int (poValue (ptOutputs pt ! (length (SiacoinOutputs txn) + j))) =
                (int (siafundPool w) - int s) * int v)"
proof -
  from assms(2) have ne: "processedTransactions w' \<noteq> processedTransactions w" by simp
  from applyTransaction_appended[OF assms(1) ne] obtain scins sfs where
    sf: "processedSiafundInputs T w tx' (SiafundInputs txn) = Inr sfs"
    and w': "w' = appendProcessed w
                    \<lparr>ptTransaction = txn,
                     ptTransactionID = TransactionID T txn,
                     ptConfirmationHeight = consensusSetHeight w,
                     ptConfirmationTimestamp = Timestamp block,
                     ptInputs = scins @ map fst sfs,
                     ptOutputs =
                       map (siacoinOutputPO w (consensusSetHeight w)) (SiacoinOutputs txn)
                       @ map snd sfs
                       @ map (siafundOutputPO w) (SiafundOutputs txn)
                       @ map minerFeePO (MinerFees txn)\<rparr>"
    by auto
  from w' assms(2) have pt: "ptOutputs pt =
                       map (siacoinOutputPO w (consensusSetHeight w)) (SiacoinOutputs txn)
                       @ map snd sfs
                       @ map (siafundOutputPO w) (SiafundOutputs txn)
                       @ map minerFeePO (MinerFees txn)"
    by (auto simp: appendProcessed_def)
  note n = processedSiafundInputs_nth[OF sf]
  from n assms(3) have len: "j < length sfs" by simp
  from assms(4,5) have
    s: "bucketHistoricClaimStarts tx' (sfiParentID (SiafundInputs txn ! j)) = Some s"
    and v: "bucketHistoricOutputs tx' (sfiParentID (SiafundInputs txn ! j)) = Some v"
    by (auto simp: dbGetHistoricClaimStart_def dbGetHistoricOutput_def split: option.splits)
  have "ptOutputs pt ! (length (SiacoinOutputs txn) + j) = snd (sfs ! j)"
    using len by (simp add: pt nth_append)
  also from n assms(3) s v have "\<dots> =
           \<lparr>poFundType = SpecifierClaimOutput,
            poMaturityHeight = consensusSetHeight w + MaturityDelay T,
            poWalletAddress =
              isWalletAddress w (UnlockHash (sfiUnlockConditions (SiafundInputs txn ! j))),
            poRelatedAddress = sfiClaimUnlockHash (SiafundInputs txn ! j),
            poValue = (siafundPool w - s) * v\<rparr>"
    by auto
  finally have main: "ptOutputs pt ! (length (SiacoinOutputs txn) + j) =
           \<lparr>poFundType = SpecifierClaimOutput,
            poMaturityHeight = consensusSetHeight w + MaturityDelay T,
            poWalletAddress =
              isWalletAddress w (UnlockHash (sfiUnlockConditions (SiafundInputs txn ! j))),
            poRelatedAddress = sfiClaimUnlockHash (SiafundInputs txn ! j),
            poValue = (siafundPool w - s) * v\<rparr>" .
  have "int ((siafundPool w - s) * v) = (int (siafundPool w) - int s) * int v"
    if "s \<le> siafundPool w"
    using that by (simp add: of_nat_diff)
  with main show ?thesis by simp
qed

lemma exClaim_runs:
  "applyTransaction exTypes exClaimWallet exClaimDB exReceiveBlock exClaimTxn =
     (appendProcessed exClaimWallet exClaimPT, Inr exClaimDB)"
  by (simp add: exClaimWallet_def exClaimDB_def exClaimTxn_def exClaimPT_def ex_defs run_defs
      Sub_def Mul_def siacoinOutputPO_def siafundOutputPO_def)

section \<open>Reverting a block that was applied\<close>

lemma specRelevant_keys: "keys w' = keys w \<Longrightarrow> specRelevant w' = specRelevant w"
  by (rule ext) (simp add: specRelevant_def)

lemma applyTransaction_relevant:
  assumes "applyTransaction T w tx block txn = (w', Inr tx')"
  shows "(specRelevant w txn \<longrightarrow>
            (\<exists>pt. processedTransactions w' = processedTransactions w @ [pt]
               \<and> ptTransactionID pt = TransactionID T txn))
       \<and> (\<not> specRelevant w txn \<longrightarrow> w' = w)"
proof -
  from assms obtain r1 tx1 r2 where
    a: "historicSiacoinOutputs T w tx txn 0 (SiacoinOutputs txn)
             (relevantSiacoinInputs w (SiacoinInputs txn) False) = Inr (r1, tx1)"
    and b: "historicSiafundOutputs T w tx1 txn 0 (SiafundOutputs txn)
                  (relevantSiafundInputs w (SiafundInputs txn) r1) = Inr (r2, tx')"
    unfolding applyTransaction_def
    by (auto split: sum.splits prod.splits if_splits)
  have r: "r2 \<longleftrightarrow> specRelevant w txn"
    using historicSiacoinOutputs_relevant[OF a] historicSiafundOutputs_relevant[OF b]
    by (auto simp: relevantSiacoinInputs_iff relevantSiafundInputs_iff specRelevant_def
        isWalletAddress_dom)
  from assms a b r show ?thesis
    unfolding applyTransaction_def
    by (auto split: sum.splits prod.splits if_splits simp: appendProcessed_def)
qed

lemma applyTransactions_list:
  "applyTransactions T w tx block txns = (w', Inr tx') \<Longrightarrow>
     \<exists>pts. processedTransactions w' = processedTransactions w @ pts
       \<and> map ptTransactionID pts = map (TransactionID T) (filter (specRelevant w) txns)"
proof (induction txns arbitrary: w tx)
  case Nil then show ?case by simp
next
  case (Cons t ts)
  from Cons.prems obtain w1 tx1 where
    s: "applyTransaction T w tx block t = (w1, Inr tx1)"
    and r: "applyTransactions T w1 tx1 block ts = (w', Inr tx')"
    by (auto split: sum.splits prod.splits)
  have k: "keys w1 = keys w" using applyTransaction_static[OF s] by (simp add: sameStatic_def)
  from Cons.IH[OF r] obtain pts where
    pts: "processedTransactions w' = processedTransactions w1 @ pts"
      "map ptTransactionID pts = map (TransactionID T) (filter (specRelevant w) ts)"
    by (auto simp: specRelevant_keys[OF k])
  show ?case
  proof (cases "specRelevant w t")
    case True
    with applyTransaction_relevant[OF s] obtain pt where
      "processedTransactions w1 = processedTransactions w @ [pt]"
      "ptTransactionID pt = TransactionID T t" by blast
    with pts True show ?thesis by (intro exI[of _ "pt # pts"]) simp
  next
    case False
    with applyTransaction_relevant[OF s] have "w1 = w" by blast
    with pts False show ?thesis by (intro exI[of _ pts]) simp
  qed
qed

lemma revertTransaction_pop:
  "processedTransactions w = L @ [p] \<Longrightarrow> ptTransactionID p = TransactionID T t \<Longrightarrow>
     processedTransactions (revertTransaction T w t) = L"
  by (simp add: revertTransaction_def Let_def)

lemma revertTransaction_keep:
  "processedTransactions w \<noteq> [] \<Longrightarrow>
     ptTransactionID (last (processedTransactions w)) \<noteq> TransactionID T t \<Longrightarrow>
     revertTransaction T w t = w"
  by (auto simp: revertTransaction_def Let_def)

lemma revertTransactions_pops:
  "distinct (map (TransactionID T) txns) \<Longrightarrow> L \<noteq> [] \<Longrightarrow>
   \<forall>t\<in>set txns. TransactionID T t \<noteq> ptTransactionID (last L) \<Longrightarrow>
   map ptTransactionID pts = map (TransactionID T) (filter P txns) \<Longrightarrow>
   processedTransactions w = L @ pts \<Longrightarrow>
   processedTransactions (revertTransactions T w (rev txns)) = L"
proof (induction txns arbitrary: pts w rule: rev_induct)
  case Nil then show ?case by simp
next
  case (snoc t ts)
  have d: "distinct (map (TransactionID T) ts)" and
    nt: "TransactionID T t \<notin> TransactionID T ` set ts"
    using snoc.prems(1) by auto
  have l: "\<forall>t\<in>set ts. TransactionID T t \<noteq> ptTransactionID (last L)"
    using snoc.prems(3) by simp
  show ?case
  proof (cases "P t")
    case True
    with snoc.prems(4) have "map ptTransactionID pts =
        map (TransactionID T) (filter P ts) @ [TransactionID T t]" by simp
    then obtain pts' p where pts: "pts = pts' @ [p]"
      and p: "ptTransactionID p = TransactionID T t"
      and m: "map ptTransactionID pts' = map (TransactionID T) (filter P ts)"
      by (cases pts rule: rev_cases) auto
    have "processedTransactions (revertTransaction T w t) = L @ pts'"
      using revertTransaction_pop[of w "L @ pts'" p T t] snoc.prems(5) pts p by simp
    from snoc.IH[OF d snoc.prems(2) l m this] show ?thesis by simp
  next
    case False
    with snoc.prems(4) have m: "map ptTransactionID pts = map (TransactionID T) (filter P ts)"
      by simp
    have ne: "processedTransactions w \<noteq> []" using snoc.prems(2,5) by simp
    have "ptTransactionID (last (processedTransactions w)) \<noteq> TransactionID T t"
    proof (cases "pts = []")
      case True
      with snoc.prems(3,5) show ?thesis by auto
    next
      case False
      then have "ptTransactionID (last pts) \<in> set (map ptTransactionID pts)"
        by (simp add: last_in_set)
      with m have "ptTransactionID (last pts) \<in> TransactionID T ` set ts" by auto
      with nt False snoc.prems(5) show ?thesis by auto
    qed
    from revertTransaction_keep[OF ne this] have "revertTransaction T w t = w" .
    with snoc.IH[OF d snoc.prems(2) l m snoc.prems(5)] show ?thesis by simp
  qed
qed

lemma applyMinerPayouts_relevant:
  "applyMinerPayouts T w tx block i mps r = Inr (r', tx') \<Longrightarrow>
     r' \<longleftrightarrow> r \<or> (\<exists>mp\<in>set mps. isWalletAddress w (scoUnlockHash mp))"
  by (induction mps arbitrary: tx i r) (auto split: sum.splits)

lemma revertMinerPayout_wallet:
  "\<exists>mp\<in>set mps. isWalletAddress w (scoUnlockHash mp) \<Longrightarrow>
     revertMinerPayout T w block mps =
       (if length (processedTransactions w) = 0 then Inl SliceBoundsOutOfRange
        else Inr (w\<lparr>processedTransactions := butlast (processedTransactions w),
                    processedTransactionMap :=
                      (processedTransactionMap w)(BlockID T block := None)\<rparr>))"
proof (induction mps)
  case Nil then show ?case by simp
next
  case (Cons mp mps)
  show ?case
  proof (cases "isWalletAddress w (scoUnlockHash mp)")
    case True then show ?thesis by simp
  next
    case False
    with Cons.prems have "\<exists>mp\<in>set mps. isWalletAddress w (scoUnlockHash mp)" by auto
    from Cons.IH[OF this] False show ?thesis by simp
  qed
qed

lemma revertBlock_wallet_payout:
  assumes "\<exists>mp\<in>set (MinerPayouts block). isWalletAddress w (scoUnlockHash mp)"
  shows "revertBlock T w block =
     (let w1 = revertTransactions T w (rev (Transactions block)) in
      if processedTransactions w1 = [] then Inl SliceBoundsOutOfRange
      else Inr (w1\<lparr>processedTransactions := butlast (processedTransactions w1),
                   processedTransactionMap :=
                     (processedTransactionMap w1)(BlockID T block := None),
                   consensusSetHeight := consensusSetHeight w1 - 1\<rparr>))"
proof -
  have k: "keys (revertTransactions T w (rev (Transactions block))) = keys w"
    using revertTransactions_static[of w T "rev (Transactions block)"]
    by (simp add: sameStatic_def)
  from assms have
    "\<exists>mp\<in>set (MinerPayouts block).
       isWalletAddress (revertTransactions T w (rev (Transactions block))) (scoUnlockHash mp)"
    by (simp add: isWalletAddress_cong[OF k])
  from revertMinerPayout_wallet[OF this] show ?thesis
    by (simp add: revertBlock_def Let_def)
qed

lemma revert_applied_block:
  assumes ap: "applyBlock T w tx block = (w1, Inr tx1)"
    and pay: "\<exists>mp\<in>set (MinerPayouts block). isWalletAddress w (scoUnlockHash mp)"
    and dist: "distinct (BlockID T block # map (TransactionID T) (Transactions block))"
  shows "\<exists>w2. revertBlock T w1 block = Inr w2
           \<and> processedTransactions w2 = processedTransactions w
           \<and> consensusSetHeight w2 = consensusSetHeight w"
proof -
  define w0 where "w0 = w\<lparr>consensusSetHeight := consensusSetHeight w + 1\<rparr>"
  have iw: "isWalletAddress w0 = isWalletAddress w"
    by (rule isWalletAddress_cong) (simp add: w0_def)
  from ap obtain rel tx0 where
    m: "applyMinerPayouts T w0 tx block 0 (MinerPayouts block) False = Inr (rel, tx0)"
    and t: "applyTransactions T
            (if rel then appendProcessed w0 (minerPT T w0 block) else w0)
            tx0 block (Transactions block) = (w1, Inr tx1)"
    unfolding applyBlock_def Let_def w0_def
    by (auto split: sum.splits prod.splits)
  from applyMinerPayouts_relevant[OF m] pay have rel by (simp add: iw)
  define wm where "wm = appendProcessed w0 (minerPT T w0 block)"
  from t \<open>rel\<close> have t': "applyTransactions T wm tx0 block (Transactions block) = (w1, Inr tx1)"
    by (simp add: wm_def)
  define L where "L = processedTransactions w @ [minerPT T w0 block]"
  have Lwm: "processedTransactions wm = L"
    by (simp add: wm_def L_def appendProcessed_def w0_def)
  from applyTransactions_list[OF t'] obtain pts where
    pts: "processedTransactions w1 = L @ pts"
    "map ptTransactionID pts = map (TransactionID T) (filter (specRelevant wm) (Transactions block))"
    by (auto simp: Lwm)
  have lastL: "ptTransactionID (last L) = BlockID T block"
    by (simp add: L_def minerPT_def)
  have "processedTransactions (revertTransactions T w1 (rev (Transactions block))) = L"
  proof (rule revertTransactions_pops[OF _ _ _ pts(2) pts(1)])
    show "distinct (map (TransactionID T) (Transactions block))" using dist by simp
    show "L \<noteq> []" by (simp add: L_def)
    show "\<forall>t\<in>set (Transactions block). TransactionID T t \<noteq> ptTransactionID (last L)"
    proof
      fix t assume "t \<in> set (Transactions block)"
      then have "TransactionID T t \<in> TransactionID T ` set (Transactions block)" by (rule imageI)
      with dist show "TransactionID T t \<noteq> ptTransactionID (last L)"
        unfolding lastL by auto
    qed
  qed
  note rt = this
  have k1: "keys w1 = keys w"
    using applyTransactions_static[OF t'] by (simp add: sameStatic_def wm_def appendProcessed_def w0_def)
  have h1: "consensusSetHeight (revertTransactions T w1 (rev (Transactions block))) =
              consensusSetHeight w + 1"
  proof -
    have a: "consensusSetHeight (revertTransactions T v ts) = consensusSetHeight v" for v ts
      by (induction ts arbitrary: v) (auto simp: revertTransaction_def Let_def)
    have b: "consensusSetHeight v' = consensusSetHeight v"
      if "applyTransactions T v x block ts = (v', r)" for v v' x ts r
      using that
    proof (induction ts arbitrary: v x)
      case Nil then show ?case by simp
    next
      case (Cons c cs)
      obtain v1 r1 where s: "applyTransaction T v x block c = (v1, r1)"
        by (cases "applyTransaction T v x block c")
      then have "consensusSetHeight v1 = consensusSetHeight v"
        unfolding applyTransaction_def
        by (auto split: sum.splits prod.splits if_splits simp: appendProcessed_def)
      with Cons s show ?case by (auto split: sum.splits)
    qed
    show ?thesis using a[of w1] b[OF t'] by (simp add: wm_def appendProcessed_def w0_def)
  qed
  from pay have pay1: "\<exists>mp\<in>set (MinerPayouts block). isWalletAddress w1 (scoUnlockHash mp)"
    by (simp add: isWalletAddress_cong[OF k1])
  show ?thesis
    using revertBlock_wallet_payout[OF pay1, of T] rt h1
    by (simp add: Let_def L_def)
qed

text \<open>
  Claim C9. When a reverted block has a miner payout to a wallet address,
  \<open>revertHistory\<close> removes the last element of \<open>processedTransactions\<close> after the
  loop over the block's transactions, whatever that element is, and panics with
  a slice bound out of range when the list is empty at that point. When the block
  was applied by \<open>applyHistory\<close> just before, with the same keys (and the ids of
  the block and of its transactions are pairwise distinct), the removal is in
  bounds and gives back the list and the height from before the block. An input
  with an empty list on which the truncation is out of bounds is the revert of
  the S3 block by a fresh wallet.
\<close>

theorem C9_revert_miner_payout:
  "((\<exists>mp\<in>set (MinerPayouts block). isWalletAddress w (scoUnlockHash mp)) \<longrightarrow>
      revertBlock T w block =
        (let w1 = revertTransactions T w (rev (Transactions block)) in
         if processedTransactions w1 = [] then Inl SliceBoundsOutOfRange
         else Inr (w1\<lparr>processedTransactions := butlast (processedTransactions w1),
                      processedTransactionMap :=
                        (processedTransactionMap w1)(BlockID T block := None),
                      consensusSetHeight := consensusSetHeight w1 - 1\<rparr>)))
   \<and> (applyHistory T w tx [block] = (wa, Inr txa) \<longrightarrow>
        (\<exists>mp\<in>set (MinerPayouts block). isWalletAddress w (scoUnlockHash mp)) \<longrightarrow>
        distinct (BlockID T block # map (TransactionID T) (Transactions block)) \<longrightarrow>
        RevertedBlocks cc = [block] \<longrightarrow>
        (\<exists>wr. revertHistory T wa cc = Inr wr
           \<and> processedTransactions wr = processedTransactions w
           \<and> consensusSetHeight wr = consensusSetHeight w))
   \<and> processedTransactions exWallet = []
   \<and> revertHistory exTypes exWallet exPayoutRevert = Inl SliceBoundsOutOfRange"
proof (intro conjI impI)
  assume "\<exists>mp\<in>set (MinerPayouts block). isWalletAddress w (scoUnlockHash mp)"
  then show "revertBlock T w block =
        (let w1 = revertTransactions T w (rev (Transactions block)) in
         if processedTransactions w1 = [] then Inl SliceBoundsOutOfRange
         else Inr (w1\<lparr>processedTransactions := butlast (processedTransactions w1),
                      processedTransactionMap :=
                        (processedTransactionMap w1)(BlockID T block := None),
                      consensusSetHeight := consensusSetHeight w1 - 1\<rparr>))"
    by (rule revertBlock_wallet_payout)
next
  assume a: "applyHistory T w tx [block] = (wa, Inr txa)"
    and p: "\<exists>mp\<in>set (MinerPayouts block). isWalletAddress w (scoUnlockHash mp)"
    and d: "distinct (BlockID T block # map (TransactionID T) (Transactions block))"
    and r: "RevertedBlocks cc = [block]"
  from a have "applyBlock T w tx block = (wa, Inr txa)"
    by (auto split: prod.splits sum.splits)
  from revert_applied_block[OF this p d] obtain w2 where
    "revertBlock T wa block = Inr w2" "processedTransactions w2 = processedTransactions w"
    "consensusSetHeight w2 = consensusSetHeight w" by blast
  then show "\<exists>wr. revertHistory T wa cc = Inr wr
           \<and> processedTransactions wr = processedTransactions w
           \<and> consensusSetHeight wr = consensusSetHeight w"
    by (simp add: revertHistory_def r)
next
  show "processedTransactions exWallet = []" by (simp add: exWallet_def)
next
  show "revertHistory exTypes exWallet exPayoutRevert = Inl SliceBoundsOutOfRange"
    by (simp add: revertHistory_def revertBlock_def revertTransaction_def exPayoutRevert_def
        exPayoutBlock_def ex_defs isWalletAddress_def)
qed

text \<open>
  C9 at the S3 block: a fresh wallet panics when it reverts the block; after it
  has applied the block, the revert removes both entries again.
\<close>

theorem C9_revert_miner_payout_witness:
  "(\<exists>mp\<in>set (MinerPayouts exPayoutBlock). isWalletAddress exWallet (scoUnlockHash mp))
   \<and> revertBlock exTypes exWallet exPayoutBlock = Inl SliceBoundsOutOfRange
   \<and> distinct (BlockID exTypes exPayoutBlock
        # map (TransactionID exTypes) (Transactions exPayoutBlock))
   \<and> RevertedBlocks exPayoutRevert = [exPayoutBlock]
   \<and> (\<exists>wa txa. applyHistory exTypes exWallet exDB [exPayoutBlock] = (wa, Inr txa)
        \<and> length (processedTransactions wa) = 2
        \<and> (\<exists>wr. revertHistory exTypes wa exPayoutRevert = Inr wr
             \<and> processedTransactions wr = []))"
proof -
  have p: "\<exists>mp\<in>set (MinerPayouts exPayoutBlock). isWalletAddress exWallet (scoUnlockHash mp)"
    by (simp add: exPayoutBlock_def exWallet_def isWalletAddress_def)
  have d: "distinct (BlockID exTypes exPayoutBlock
        # map (TransactionID exTypes) (Transactions exPayoutBlock))"
    by (simp add: exPayoutBlock_def ex_defs)
  have r: "RevertedBlocks exPayoutRevert = [exPayoutBlock]" by (simp add: exPayoutRevert_def)
  obtain wa txa where
    a: "applyHistory exTypes exWallet exDB [exPayoutBlock] = (wa, Inr txa)"
    and l: "length (processedTransactions wa) = 2"
    by (simp add: exPayoutBlock_def ex_defs run_defs)
  have e: "processedTransactions (revertTransactions exTypes exWallet
             (rev (Transactions exPayoutBlock))) = []"
    by (simp add: exPayoutBlock_def ex_defs revertTransaction_def)
  note c = C9_revert_miner_payout[of exPayoutBlock exWallet exTypes exDB wa txa exPayoutRevert]
  from c p e have "revertBlock exTypes exWallet exPayoutBlock = Inl SliceBoundsOutOfRange"
    by (simp add: Let_def)
  moreover from c a p d r have "\<exists>wr. revertHistory exTypes wa exPayoutRevert = Inr wr
           \<and> processedTransactions wr = processedTransactions exWallet" by blast
  ultimately show ?thesis using p d r a l by (auto simp: exWallet_def)
qed

section \<open>Errors of the key-value store\<close>

text \<open>
  Claim C1 as stated fails: a KV error in \<open>applyHistory\<close> aborts the transaction,
  but the wallet's memory has been written before. Here the second transaction
  of the block spends an output that \<open>HistoricOutputs\<close> does not hold: the database
  is as before, while the processed transactions, their index, the siafund pool
  and the consensus height have changed.
\<close>

theorem C1_memory_not_restored_counterexample:
  "ProcessConsensusChange exTypes exWallet exDB exSpendChange = Inr (exSpendResult, exDB)
   \<and> processedTransactions exSpendResult \<noteq> processedTransactions exWallet
   \<and> processedTransactionMap exSpendResult 101 \<noteq> processedTransactionMap exWallet 101
   \<and> siafundPool exSpendResult \<noteq> siafundPool exWallet
   \<and> consensusSetHeight exSpendResult \<noteq> consensusSetHeight exWallet"
  by (simp add: exSpendChange_def exSpendResult_def exSpendTxn_def ex_defs run_defs
      siacoinOutputPO_def errNoKey_def)

text \<open>
  Claim C1, amended. For every consensus change that the wallet processes: a KV
  error in \<open>updateConfirmedSet\<close> aborts the transaction and leaves the database and
  the in-memory state (processed transactions, their index, siafund pool,
  consensus height) exactly as before; a KV error in \<open>applyHistory\<close> aborts the
  transaction and leaves the database exactly as before, while the in-memory
  state is not rolled back: the siafund pool is the fold of the pool diffs, and
  the processed transactions, their index and the consensus height stay as
  \<open>revertHistory\<close> and the part of \<open>applyHistory\<close> before the error left them.
\<close>

theorem C1_abort_keeps_database:
  assumes "ProcessConsensusChange T w db cc = Inr (w', db')"
    and "\<not> tgStopped w"
  shows "(\<forall>err. snd (updateConfirmedSet w db cc) = Inl err \<longrightarrow>
            db' = db
            \<and> processedTransactions w' = processedTransactions w
            \<and> processedTransactionMap w' = processedTransactionMap w
            \<and> siafundPool w' = siafundPool w
            \<and> consensusSetHeight w' = consensusSetHeight w)
       \<and> (\<forall>tx1 w2 w3 err.
            snd (updateConfirmedSet w db cc) = Inr tx1 \<longrightarrow>
            revertHistory T (fst (updateConfirmedSet w db cc)) cc = Inr w2 \<longrightarrow>
            applyHistory T w2 tx1 (AppliedBlocks cc) = (w3, Inl err) \<longrightarrow>
            db' = db
            \<and> siafundPool w' =
                foldl (\<lambda>pool diff. if sfpdDirection diff = DiffApply then sfpdAdjusted diff
                                    else sfpdPrevious diff)
                  (siafundPool w) (SiafundPoolDiffs cc)
            \<and> processedTransactions w' = processedTransactions w3
            \<and> processedTransactionMap w' = processedTransactionMap w3
            \<and> consensusSetHeight w' = consensusSetHeight w3)"
proof -
  from ProcessConsensusChange_cases[OF assms(1)] assms(2)
  obtain w1 r where p: "processChangeTx T w cc db = Inr (w1, r)"
    and w': "w' = logError w1 ''ERROR: failed to add consensus change: '' r"
    and db': "db' = dbUpdate db r"
    by blast
  note c = processChangeTx_cases[OF p]
  have "db' = db
            \<and> processedTransactions w' = processedTransactions w
            \<and> processedTransactionMap w' = processedTransactionMap w
            \<and> siafundPool w' = siafundPool w
            \<and> consensusSetHeight w' = consensusSetHeight w"
    if "snd (updateConfirmedSet w db cc) = Inl err" for err
    using c that w' db' by (auto simp: logError_static dbUpdate_def)
  moreover have "db' = db
            \<and> siafundPool w' =
                foldl (\<lambda>pool diff. if sfpdDirection diff = DiffApply then sfpdAdjusted diff
                                    else sfpdPrevious diff)
                  (siafundPool w) (SiafundPoolDiffs cc)
            \<and> processedTransactions w' = processedTransactions w3
            \<and> processedTransactionMap w' = processedTransactionMap w3
            \<and> consensusSetHeight w' = consensusSetHeight w3"
    if u: "snd (updateConfirmedSet w db cc) = Inr tx1"
      and rv: "revertHistory T (fst (updateConfirmedSet w db cc)) cc = Inr w2"
      and ap: "applyHistory T w2 tx1 (AppliedBlocks cc) = (w3, Inl err)"
    for tx1 w2 w3 err
  proof -
    from c u rv ap have e: "w1 = w3" "r = Inl err" by auto
    have "siafundPool w1 = siafundPool (updateSiafundPool w (SiafundPoolDiffs cc))"
      by (rule processChangeTx_pool[OF p u])
    with e w' db' show ?thesis
      by (simp add: logError_static dbUpdate_def updateSiafundPool_fold)
  qed
  ultimately show ?thesis by blast
qed

text \<open>
  C1 amended, at the change above: the error arises in \<open>applyHistory\<close>, the database
  is as before and the pool holds the adjusted value of the pool diff.
\<close>

theorem C1_abort_keeps_database_witness:
  "ProcessConsensusChange exTypes exWallet exDB exSpendChange = Inr (exSpendResult, exDB)
   \<and> \<not> tgStopped exWallet
   \<and> snd (updateConfirmedSet exWallet exDB exSpendChange) = Inr exDB
   \<and> (\<exists>w2 w3 err.
        revertHistory exTypes (fst (updateConfirmedSet exWallet exDB exSpendChange)) exSpendChange
          = Inr w2
        \<and> applyHistory exTypes w2 exDB (AppliedBlocks exSpendChange) = (w3, Inl err)
        \<and> processedTransactions exSpendResult = processedTransactions w3)
   \<and> siafundPool exSpendResult = 1000"
proof -
  have a: "ProcessConsensusChange exTypes exWallet exDB exSpendChange = Inr (exSpendResult, exDB)"
    by (simp add: exSpendChange_def exSpendResult_def exSpendTxn_def ex_defs run_defs
      siacoinOutputPO_def errNoKey_def)
  have b: "\<not> tgStopped exWallet" by (simp add: exWallet_def)
  have u: "snd (updateConfirmedSet exWallet exDB exSpendChange) = Inr exDB"
    by (simp add: exSpendChange_def ex_defs updateConfirmedSet_def)
  have rv:
    "revertHistory exTypes (fst (updateConfirmedSet exWallet exDB exSpendChange)) exSpendChange
       = Inr (exWallet\<lparr>siafundPool := 1000\<rparr>)"
    by (simp add: exSpendChange_def revertHistory_def updateConfirmedSet_def ex_defs)
  obtain w3 err where ap:
    "applyHistory exTypes (exWallet\<lparr>siafundPool := 1000\<rparr>) exDB (AppliedBlocks exSpendChange)
       = (w3, Inl err)"
    by (simp add: exSpendChange_def exSpendTxn_def ex_defs run_defs)
  from C1_abort_keeps_database[OF a b] u rv ap
  have "processedTransactions exSpendResult = processedTransactions w3" by blast
  moreover have "siafundPool exSpendResult = 1000" by (simp add: exSpendResult_def)
  ultimately show ?thesis using a b u rv ap by blast
qed

section \<open>Relevance in the unconfirmed updater\<close>

lemma siacoinRelevant_keys: "keys w' = keys w \<Longrightarrow> siacoinRelevant w' = siacoinRelevant w"
  by (rule ext) (simp add: siacoinRelevant_def isWalletAddress_def)

lemma unconfirmedTransaction_entry:
  assumes "unconfirmedTransaction T w tx txn = (w', Inr tx')"
  shows "\<exists>pts. unconfirmedProcessedTransactions w' = unconfirmedProcessedTransactions w @ pts
           \<and> map ptTransaction pts = filter (siacoinRelevant w) [txn]
           \<and> map ptTransactionID pts = map (TransactionID T) (filter (siacoinRelevant w) [txn])"
proof -
  from assms obtain r1 where
    a: "historicSiacoinOutputs T w tx txn 0 (SiacoinOutputs txn)
             (relevantSiacoinInputs w (SiacoinInputs txn) False) = Inr (r1, tx')"
    unfolding unconfirmedTransaction_def
    by (auto split: sum.splits prod.splits if_splits)
  have r: "r1 \<longleftrightarrow> siacoinRelevant w txn"
    using historicSiacoinOutputs_relevant[OF a]
    by (auto simp: relevantSiacoinInputs_iff siacoinRelevant_def)
  from assms a r show ?thesis
    unfolding unconfirmedTransaction_def
    by (auto split: sum.splits prod.splits if_splits)
qed

lemma unconfirmedTransactions_entries:
  "unconfirmedTransactions T w tx txns = (w', Inr tx') \<Longrightarrow>
     \<exists>pts. unconfirmedProcessedTransactions w' = unconfirmedProcessedTransactions w @ pts
       \<and> map ptTransaction pts = filter (siacoinRelevant w) txns
       \<and> map ptTransactionID pts = map (TransactionID T) (filter (siacoinRelevant w) txns)"
proof (induction txns arbitrary: w tx)
  case Nil then show ?case by simp
next
  case (Cons t ts)
  from Cons.prems obtain w1 tx1 where
    s: "unconfirmedTransaction T w tx t = (w1, Inr tx1)"
    and r: "unconfirmedTransactions T w1 tx1 ts = (w', Inr tx')"
    by (auto split: sum.splits prod.splits)
  have k: "keys w1 = keys w"
    using unconfirmedTransaction_wallet[OF s] by (simp add: sameButUnconfirmed_def)
  from unconfirmedTransaction_entry[OF s] obtain p1 where
    p1: "unconfirmedProcessedTransactions w1 = unconfirmedProcessedTransactions w @ p1"
    "map ptTransaction p1 = filter (siacoinRelevant w) [t]"
    "map ptTransactionID p1 = map (TransactionID T) (filter (siacoinRelevant w) [t])"
    by blast
  from Cons.IH[OF r] obtain p2 where
    p2: "unconfirmedProcessedTransactions w' = unconfirmedProcessedTransactions w1 @ p2"
    "map ptTransaction p2 = filter (siacoinRelevant w) ts"
    "map ptTransactionID p2 = map (TransactionID T) (filter (siacoinRelevant w) ts)"
    by (auto simp: siacoinRelevant_keys[OF k])
  from p1 p2 show ?case by (intro exI[of _ "p1 @ p2"]) auto
qed

text \<open>
  Claim C3 as stated fails: a transaction whose only wallet address is that of a
  siafund output is relevant in the sense of the history engine, which appends a
  processed transaction for it, but the unconfirmed updater makes no entry.
\<close>

theorem C3_siafund_not_consulted_counterexample:
  "specRelevant exWallet exSiafundTxn
   \<and> length (processedTransactions
        (fst (applyTransaction exTypes exWallet exDB exReceiveBlock exSiafundTxn))) = 1
   \<and> ReceiveUpdatedUnconfirmedTransactions exTypes exWallet exDB [exSiafundTxn] = (exWallet, exDB)
   \<and> unconfirmedProcessedTransactions exWallet = []"
  by (simp add: specRelevant_def exSiafundTxn_def ex_defs run_defs
      ReceiveUpdatedUnconfirmedTransactions_def unconfirmedTransaction_def)

text \<open>
  Claim C3, amended. For every mempool update that the wallet processes without
  a KV error (no error line is logged), relevance is the history engine's pass
  restricted to the siacoin sets: a transaction is relevant iff some siacoin
  input's derived address or some siacoin output's address is in \<open>keys\<close>; siafund
  inputs and outputs are not consulted. Exactly the transactions relevant in
  this sense produce the entries of the rebuilt unconfirmed list, in order; for
  a transaction without siafund inputs and outputs this is the relevance of the
  history engine.
\<close>

theorem C3_unconfirmed_relevance:
  assumes "ReceiveUpdatedUnconfirmedTransactions T w db txns = (w', db')"
    and "\<not> tgStopped w"
    and "walletLog w' = walletLog w"
  shows "map ptTransaction (unconfirmedProcessedTransactions w') = filter (siacoinRelevant w) txns
     \<and> map ptTransactionID (unconfirmedProcessedTransactions w') =
         map (TransactionID T) (filter (siacoinRelevant w) txns)
     \<and> (\<forall>txn. SiafundInputs txn = [] \<and> SiafundOutputs txn = [] \<longrightarrow>
          (siacoinRelevant w txn \<longleftrightarrow> specRelevant w txn))"
proof -
  define w0 where "w0 = w\<lparr>unconfirmedProcessedTransactions := []\<rparr>"
  from assms(1,2) obtain w1 r where
    u: "unconfirmedTransactions T w0 db txns = (w1, r)"
    and w': "w' = logError w1 ''ERROR: failed to add unconfirmed transactions: '' r"
    by (auto simp: ReceiveUpdatedUnconfirmedTransactions_def w0_def split: prod.splits)
  have l: "walletLog w1 = walletLog w"
    using unconfirmedTransactions_wallet[OF u] by (simp add: sameButUnconfirmed_def w0_def)
  from assms(3) w' l obtain tx' where r: "r = Inr tx'"
    by (cases r) (auto simp: logError_def)
  have k: "keys w0 = keys w" by (simp add: w0_def)
  have sr: "siacoinRelevant w0 = siacoinRelevant w" by (rule siacoinRelevant_keys[OF k])
  have e0: "unconfirmedProcessedTransactions w0 = []" by (simp add: w0_def)
  from unconfirmedTransactions_entries[OF u[unfolded r]] obtain pts where
    "unconfirmedProcessedTransactions w1 = pts"
    "map ptTransaction pts = filter (siacoinRelevant w) txns"
    "map ptTransactionID pts = map (TransactionID T) (filter (siacoinRelevant w) txns)"
    unfolding sr e0 by auto
  moreover have "unconfirmedProcessedTransactions w' = unconfirmedProcessedTransactions w1"
    by (simp add: w' logError_static)
  moreover have "siacoinRelevant w txn \<longleftrightarrow> specRelevant w txn"
    if "SiafundInputs txn = [] \<and> SiafundOutputs txn = []" for txn
    using that by (simp add: siacoinRelevant_def specRelevant_def isWalletAddress_dom)
  ultimately show ?thesis by simp
qed

text \<open>
  C3 amended, when the transaction of S1 and the siafund transaction arrive from
  the pool: only the first makes an entry.
\<close>

theorem C3_unconfirmed_relevance_witness:
  "\<exists>w' db'.
     ReceiveUpdatedUnconfirmedTransactions exTypes exWallet exDB [exReceiveTxn, exSiafundTxn]
       = (w', db')
     \<and> \<not> tgStopped exWallet
     \<and> walletLog w' = walletLog exWallet
     \<and> siacoinRelevant exWallet exReceiveTxn
     \<and> \<not> siacoinRelevant exWallet exSiafundTxn
     \<and> map ptTransaction (unconfirmedProcessedTransactions w') = [exReceiveTxn]
     \<and> SiafundInputs exReceiveTxn = [] \<and> SiafundOutputs exReceiveTxn = []
     \<and> specRelevant exWallet exReceiveTxn"
proof -
  have l: "walletLog (fst (ReceiveUpdatedUnconfirmedTransactions exTypes exWallet exDB
             [exReceiveTxn, exSiafundTxn])) = []"
    by (simp add: ReceiveUpdatedUnconfirmedTransactions_def unconfirmedTransaction_def
        exSiafundTxn_def ex_defs run_defs)
  obtain w' db' where
    a: "ReceiveUpdatedUnconfirmedTransactions exTypes exWallet exDB [exReceiveTxn, exSiafundTxn]
       = (w', db')"
    by (cases "ReceiveUpdatedUnconfirmedTransactions exTypes exWallet exDB
                 [exReceiveTxn, exSiafundTxn]")
  have b: "\<not> tgStopped exWallet" by (simp add: exWallet_def)
  from l a have c: "walletLog w' = walletLog exWallet"
    by (simp add: exWallet_def)
  have d: "siacoinRelevant exWallet exReceiveTxn" "\<not> siacoinRelevant exWallet exSiafundTxn"
    by (simp_all add: siacoinRelevant_def exSiafundTxn_def ex_defs isWalletAddress_def)
  have e: "SiafundInputs exReceiveTxn = [] \<and> SiafundOutputs exReceiveTxn = []"
    by (simp add: exReceiveTxn_def)
  note t = C3_unconfirmed_relevance[OF a b c]
  from t d have "map ptTransaction (unconfirmedProcessedTransactions w') = [exReceiveTxn]"
    by simp
  moreover from t e d have "specRelevant exWallet exReceiveTxn" by blast
  ultimately show ?thesis using a b c d e
    by (intro exI[of _ w'] exI[of _ db']) simp
qed

section \<open>Undoing consistent diffs\<close>

lemma flipDirection_simps [simp]:
  "flipDirection DiffApply = DiffRevert" "flipDirection DiffRevert = DiffApply"
  by (simp_all add: flipDirection_def)

lemma DiffDirection_neq_Apply [simp]: "d \<noteq> DiffApply \<longleftrightarrow> d = DiffRevert"
  by (cases d) auto

lemma stepBucket_undo:
  "(if dir = DiffApply then b id' = None else b id' = Some v) \<Longrightarrow>
     stepBucket (stepBucket b (dir, id', v)) (flipDirection dir, id', v) = b"
  by (cases dir) (auto simp: fun_eq_iff)

lemma consistentDiffs_undo:
  "consistentDiffs b ds \<Longrightarrow>
     foldl stepBucket (foldl stepBucket b ds)
       (rev (map (\<lambda>(dir, id', v). (flipDirection dir, id', v)) ds)) = b"
proof (induction ds arbitrary: b)
  case Nil then show ?case by simp
next
  case (Cons d ds)
  obtain dir id' v where d: "d = (dir, id', v)" by (cases d)
  from Cons.prems d have c: "if dir = DiffApply then b id' = None else b id' = Some v"
    and r: "consistentDiffs (stepBucket b (dir, id', v)) ds" by auto
  from Cons.IH[OF r] stepBucket_undo[of dir b id' v] c show ?case
    by (simp add: d)
qed

lemma updateSiacoinOutputs_fold:
  "updateSiacoinOutputs w tx ds = Inr tx' \<Longrightarrow>
     bucketSiacoinOutputs tx' = foldl stepBucket (bucketSiacoinOutputs tx) (walletSiacoinDiffs w ds)"
proof (induction ds arbitrary: tx)
  case Nil then show ?case by (simp add: walletSiacoinDiffs_def)
next
  case (Cons d ds)
  show ?case
  proof (cases "isWalletAddress w (scoUnlockHash (scodSiacoinOutput d))")
    case False
    with Cons show ?thesis by (simp add: walletSiacoinDiffs_def)
  next
    case True
    with Cons.prems obtain tx1 where
      step: "(if scodDirection d = DiffApply
               then dbPutSiacoinOutput tx (scodID d) (scodSiacoinOutput d)
               else dbDeleteSiacoinOutput tx (scodID d)) = Inr tx1"
      and rest: "updateSiacoinOutputs w tx1 ds = Inr tx'"
      by (auto split: sum.splits)
    from step have "bucketSiacoinOutputs tx1 =
        stepBucket (bucketSiacoinOutputs tx) (scodDirection d, scodID d, scodSiacoinOutput d)"
      by (auto simp: dbPutSiacoinOutput_def dbDeleteSiacoinOutput_def split: if_splits)
    with Cons.IH[OF rest] True show ?thesis by (simp add: walletSiacoinDiffs_def)
  qed
qed

lemma updateSiafundOutputs_fold:
  "updateSiafundOutputs w tx ds = Inr tx' \<Longrightarrow>
     bucketSiafundOutputs tx' = foldl stepBucket (bucketSiafundOutputs tx) (walletSiafundDiffs w ds)"
proof (induction ds arbitrary: tx)
  case Nil then show ?case by (simp add: walletSiafundDiffs_def)
next
  case (Cons d ds)
  show ?case
  proof (cases "isWalletAddress w (sfoUnlockHash (sfodSiafundOutput d))")
    case False
    with Cons show ?thesis by (simp add: walletSiafundDiffs_def)
  next
    case True
    with Cons.prems obtain tx1 where
      step: "(if sfodDirection d = DiffApply
               then dbPutSiafundOutput tx (sfodID d) (sfodSiafundOutput d)
               else dbDeleteSiafundOutput tx (sfodID d)) = Inr tx1"
      and rest: "updateSiafundOutputs w tx1 ds = Inr tx'"
      by (auto split: sum.splits)
    from step have "bucketSiafundOutputs tx1 =
        stepBucket (bucketSiafundOutputs tx) (sfodDirection d, sfodID d, sfodSiafundOutput d)"
      by (auto simp: dbPutSiafundOutput_def dbDeleteSiafundOutput_def split: if_splits)
    with Cons.IH[OF rest] True show ?thesis by (simp add: walletSiafundDiffs_def)
  qed
qed

lemma walletSiacoinDiffs_keys:
  "keys w' = keys w \<Longrightarrow> walletSiacoinDiffs w' = walletSiacoinDiffs w"
  by (rule ext) (simp add: walletSiacoinDiffs_def isWalletAddress_def)

lemma walletSiafundDiffs_keys:
  "keys w' = keys w \<Longrightarrow> walletSiafundDiffs w' = walletSiafundDiffs w"
  by (rule ext) (simp add: walletSiafundDiffs_def isWalletAddress_def)

lemma walletSiacoinDiffs_append:
  "walletSiacoinDiffs w (xs @ ys) = walletSiacoinDiffs w xs @ walletSiacoinDiffs w ys"
  by (simp add: walletSiacoinDiffs_def)

lemma walletSiafundDiffs_append:
  "walletSiafundDiffs w (xs @ ys) = walletSiafundDiffs w xs @ walletSiafundDiffs w ys"
  by (simp add: walletSiafundDiffs_def)

lemma walletSiacoinDiffs_invert:
  "walletSiacoinDiffs w
     (rev (map (\<lambda>d. d\<lparr>scodDirection := flipDirection (scodDirection d)\<rparr>) ds)) =
   rev (map (\<lambda>(dir, id', v). (flipDirection dir, id', v)) (walletSiacoinDiffs w ds))"
  by (induction ds) (auto simp: walletSiacoinDiffs_def)

lemma walletSiafundDiffs_invert:
  "walletSiafundDiffs w
     (rev (map (\<lambda>d. d\<lparr>sfodDirection := flipDirection (sfodDirection d)\<rparr>) ds)) =
   rev (map (\<lambda>(dir, id', v). (flipDirection dir, id', v)) (walletSiafundDiffs w ds))"
  by (induction ds) (auto simp: walletSiafundDiffs_def)

lemma fullRevert_siacoin:
  "walletSiacoinDiffs w (concat (map SiacoinOutputDiffs (fullRevert ccs))) =
   rev (map (\<lambda>(dir, id', v). (flipDirection dir, id', v))
          (walletSiacoinDiffs w (concat (map SiacoinOutputDiffs ccs))))"
  by (induction ccs)
     (simp_all add: fullRevert_def invertChange_def walletSiacoinDiffs_append
        walletSiacoinDiffs_invert, simp add: walletSiacoinDiffs_def)

lemma fullRevert_siafund:
  "walletSiafundDiffs w (concat (map SiafundOutputDiffs (fullRevert ccs))) =
   rev (map (\<lambda>(dir, id', v). (flipDirection dir, id', v))
          (walletSiafundDiffs w (concat (map SiafundOutputDiffs ccs))))"
  by (induction ccs)
     (simp_all add: fullRevert_def invertChange_def walletSiafundDiffs_append
        walletSiafundDiffs_invert, simp add: walletSiafundDiffs_def)

section \<open>Reverting a sequence of changes\<close>

lemma historicGrows_refl: "historicGrows tx tx" by (simp add: historicGrows_def)

lemma historicGrows_trans: "historicGrows a b \<Longrightarrow> historicGrows b c \<Longrightarrow> historicGrows a c"
  unfolding historicGrows_def by (meson subset_trans)

lemma dbPutHistoricOutput_grows:
  "dbPutHistoricOutput tx id' c = Inr tx' \<Longrightarrow> historicGrows tx tx'"
  by (auto simp: dbPutHistoricOutput_def historicGrows_def split: if_splits)

lemma dbPutHistoricClaimStart_grows:
  "dbPutHistoricClaimStart tx id' c = Inr tx' \<Longrightarrow> historicGrows tx tx'"
  by (auto simp: dbPutHistoricClaimStart_def historicGrows_def split: if_splits)

lemma historicSiacoinOutputs_grows:
  "historicSiacoinOutputs T w tx txn i scos r = Inr (r', tx') \<Longrightarrow> historicGrows tx tx'"
proof (induction scos arbitrary: tx i r)
  case Nil then show ?case by (simp add: historicGrows_refl)
next
  case (Cons sco scos)
  then show ?case
    by (auto split: sum.splits dest!: dbPutHistoricOutput_grows intro: historicGrows_trans)
qed

lemma historicSiafundOutputs_grows:
  "historicSiafundOutputs T w tx txn i sfos r = Inr (r', tx') \<Longrightarrow> historicGrows tx tx'"
proof (induction sfos arbitrary: tx i r)
  case Nil then show ?case by (simp add: historicGrows_refl)
next
  case (Cons sfo sfos)
  from Cons.prems obtain tx1 tx2 where
    a: "dbPutHistoricOutput tx (SiafundOutputID T txn i) (sfoValue sfo) = Inr tx1"
    and b: "dbPutHistoricClaimStart tx1 (SiafundOutputID T txn i) (sfoClaimStart sfo) = Inr tx2"
    and c: "historicSiafundOutputs T w tx2 txn (Suc i) sfos
              (r \<or> isWalletAddress w (sfoUnlockHash sfo)) = Inr (r', tx')"
    by (auto simp: Let_def split: sum.splits)
  from historicGrows_trans[OF dbPutHistoricOutput_grows[OF a]
      historicGrows_trans[OF dbPutHistoricClaimStart_grows[OF b] Cons.IH[OF c]]]
  show ?case .
qed

lemma applyMinerPayouts_grows:
  "applyMinerPayouts T w tx block i mps r = Inr (r', tx') \<Longrightarrow> historicGrows tx tx'"
proof (induction mps arbitrary: tx i r)
  case Nil then show ?case by (simp add: historicGrows_refl)
next
  case (Cons mp mps)
  then show ?case
    by (auto split: sum.splits dest!: dbPutHistoricOutput_grows intro: historicGrows_trans)
qed

lemma applyTransaction_grows:
  "applyTransaction T w tx block txn = (w', Inr tx') \<Longrightarrow> historicGrows tx tx'"
  unfolding applyTransaction_def
  by (auto split: sum.splits prod.splits if_splits
      dest!: historicSiacoinOutputs_grows historicSiafundOutputs_grows
      intro: historicGrows_trans)

lemma applyTransactions_grows:
  "applyTransactions T w tx block txns = (w', Inr tx') \<Longrightarrow> historicGrows tx tx'"
proof (induction txns arbitrary: w tx)
  case Nil then show ?case by (simp add: historicGrows_refl)
next
  case (Cons t ts)
  then show ?case
    by (auto split: sum.splits prod.splits dest!: applyTransaction_grows
        intro: historicGrows_trans)
qed

lemma applyBlock_grows:
  "applyBlock T w tx block = (w', Inr tx') \<Longrightarrow> historicGrows tx tx'"
  unfolding applyBlock_def Let_def
  by (auto split: sum.splits prod.splits
      dest!: applyTransactions_grows applyMinerPayouts_grows intro: historicGrows_trans)

lemma applyHistory_grows:
  "applyHistory T w tx blocks = (w', Inr tx') \<Longrightarrow> historicGrows tx tx'"
proof (induction blocks arbitrary: w tx)
  case Nil then show ?case by (simp add: historicGrows_refl)
next
  case (Cons b bs)
  then show ?case
    by (auto split: sum.splits prod.splits dest!: applyBlock_grows intro: historicGrows_trans)
qed

lemma updateConfirmedSet_historic:
  assumes "updateConfirmedSet w tx cc = (w1, Inr tx1)"
  shows "historicGrows tx tx1"
proof -
  from assms obtain tx0 where
    a: "updateSiacoinOutputs w tx (SiacoinOutputDiffs cc) = Inr tx0"
    and b: "updateSiafundOutputs w tx0 (SiafundOutputDiffs cc) = Inr tx1"
    by (auto simp: updateConfirmedSet_def split: sum.splits)
  from updateSiacoinOutputs_frame[OF a] updateSiafundOutputs_frame[OF b]
  show ?thesis by (simp add: historicGrows_def)
qed

lemma ProcessConsensusChange_grows:
  assumes "ProcessConsensusChange T w db cc = Inr (w', db')"
  shows "historicGrows db db'"
proof -
  from ProcessConsensusChange_cases[OF assms]
  consider "db' = db" | w1 r where "processChangeTx T w cc db = Inr (w1, r)" "db' = dbUpdate db r"
    by blast
  then show ?thesis
  proof cases
    case 1 then show ?thesis by (simp add: historicGrows_refl)
  next
    case 2
    show ?thesis
    proof (cases r)
      case (Inl err)
      with 2 show ?thesis by (simp add: dbUpdate_def historicGrows_refl)
    next
      case (Inr tx3)
      with processChangeTx_cases[OF 2(1)] obtain tx1 w2 where
        u: "updateConfirmedSet w db cc = (updateSiafundPool w (SiafundPoolDiffs cc), Inr tx1)"
        and a: "applyHistory T w2 tx1 (AppliedBlocks cc) = (w1, Inr tx3)"
        by auto
      from historicGrows_trans[OF updateConfirmedSet_historic[OF u] applyHistory_grows[OF a]]
        2(2) Inr show ?thesis by (simp add: dbUpdate_def)
    qed
  qed
qed

lemma processChanges_grows:
  "processChanges T w db ccs = Inr (w', db') \<Longrightarrow> historicGrows db db'"
proof (induction ccs arbitrary: w db)
  case Nil then show ?case by (simp add: historicGrows_refl)
next
  case (Cons cc ccs)
  then show ?case
    by (auto split: sum.splits dest!: ProcessConsensusChange_grows intro: historicGrows_trans)
qed

text \<open>A processed change either logs one error line or completes its transaction.\<close>

lemma ProcessConsensusChange_log:
  assumes "ProcessConsensusChange T w db cc = Inr (w', db')" and "\<not> tgStopped w"
  shows "keys w' = keys w \<and> \<not> tgStopped w'
     \<and> (length (walletLog w') = Suc (length (walletLog w))
         \<or> (walletLog w' = walletLog w
            \<and> bucketSiacoinOutputs db' =
                foldl stepBucket (bucketSiacoinOutputs db)
                  (walletSiacoinDiffs w (SiacoinOutputDiffs cc))
            \<and> bucketSiafundOutputs db' =
                foldl stepBucket (bucketSiafundOutputs db)
                  (walletSiafundDiffs w (SiafundOutputDiffs cc))))"
proof -
  from ProcessConsensusChange_cases[OF assms(1)] assms(2)
  obtain w1 r where p: "processChangeTx T w cc db = Inr (w1, r)"
    and w': "w' = logError w1 ''ERROR: failed to add consensus change: '' r"
    and db': "db' = dbUpdate db r"
    by blast
  note st = processChangeTx_static[OF p]
  have k: "keys w' = keys w \<and> \<not> tgStopped w'"
    using st assms(2) by (simp add: w' logError_static)
  show ?thesis
  proof (cases r)
    case (Inl err)
    with w' st have "length (walletLog w') = Suc (length (walletLog w))"
      by (simp add: logError_def)
    with k show ?thesis by simp
  next
    case (Inr tx3)
    with w' st have l: "walletLog w' = walletLog w" by (simp add: logError_def)
    from Inr processChangeTx_cases[OF p] obtain tx1 w2 where
      u: "updateConfirmedSet w db cc = (updateSiafundPool w (SiafundPoolDiffs cc), Inr tx1)"
      and a: "applyHistory T w2 tx1 (AppliedBlocks cc) = (w1, Inr tx3)"
      by auto
    from u obtain tx0 where
      c: "updateSiacoinOutputs w db (SiacoinOutputDiffs cc) = Inr tx0"
      and f: "updateSiafundOutputs w tx0 (SiafundOutputDiffs cc) = Inr tx1"
      by (auto simp: updateConfirmedSet_def split: sum.splits)
    note sc = applyHistory_confirmed[OF a, unfolded sameConfirmed_def]
    have "bucketSiacoinOutputs db' =
            foldl stepBucket (bucketSiacoinOutputs db)
              (walletSiacoinDiffs w (SiacoinOutputDiffs cc))"
      using updateSiacoinOutputs_fold[OF c] updateSiafundOutputs_frame[OF f] sc db' Inr
      by (simp add: dbUpdate_def)
    moreover have "bucketSiafundOutputs db' =
            foldl stepBucket (bucketSiafundOutputs db)
              (walletSiafundDiffs w (SiafundOutputDiffs cc))"
      using updateSiafundOutputs_fold[OF f] updateSiacoinOutputs_frame[OF c] sc db' Inr
      by (simp add: dbUpdate_def)
    ultimately show ?thesis using k l by simp
  qed
qed

lemma processChanges_log_mono:
  "processChanges T w db ccs = Inr (w', db') \<Longrightarrow> \<not> tgStopped w \<Longrightarrow>
     length (walletLog w) \<le> length (walletLog w') \<and> keys w' = keys w \<and> \<not> tgStopped w'"
proof (induction ccs arbitrary: w db)
  case Nil then show ?case by simp
next
  case (Cons cc ccs)
  from Cons.prems(1) obtain w1 db1 where
    s: "ProcessConsensusChange T w db cc = Inr (w1, db1)"
    and r: "processChanges T w1 db1 ccs = Inr (w', db')"
    by (auto split: sum.splits)
  note l = ProcessConsensusChange_log[OF s Cons.prems(2)]
  from l have n: "\<not> tgStopped w1" by simp
  from Cons.IH[OF r n] l show ?case by auto
qed

lemma processChanges_quiet:
  "processChanges T w db ccs = Inr (w', db') \<Longrightarrow> \<not> tgStopped w \<Longrightarrow>
   length (walletLog w') = length (walletLog w) \<Longrightarrow>
     bucketSiacoinOutputs db' =
       foldl stepBucket (bucketSiacoinOutputs db)
         (walletSiacoinDiffs w (concat (map SiacoinOutputDiffs ccs)))
     \<and> bucketSiafundOutputs db' =
       foldl stepBucket (bucketSiafundOutputs db)
         (walletSiafundDiffs w (concat (map SiafundOutputDiffs ccs)))"
proof (induction ccs arbitrary: w db)
  case Nil then show ?case by (simp add: walletSiacoinDiffs_def walletSiafundDiffs_def)
next
  case (Cons cc ccs)
  from Cons.prems(1) obtain w1 db1 where
    s: "ProcessConsensusChange T w db cc = Inr (w1, db1)"
    and r: "processChanges T w1 db1 ccs = Inr (w', db')"
    by (auto split: sum.splits)
  note l = ProcessConsensusChange_log[OF s Cons.prems(2)]
  from l have n: "\<not> tgStopped w1" and k: "keys w1 = keys w" by simp_all
  note m = processChanges_log_mono[OF r n]
  from l m Cons.prems(3) have q: "walletLog w1 = walletLog w"
    and b: "bucketSiacoinOutputs db1 =
                foldl stepBucket (bucketSiacoinOutputs db)
                  (walletSiacoinDiffs w (SiacoinOutputDiffs cc))"
           "bucketSiafundOutputs db1 =
                foldl stepBucket (bucketSiafundOutputs db)
                  (walletSiafundDiffs w (SiafundOutputDiffs cc))"
    by auto
  from q Cons.prems(3) have "length (walletLog w') = length (walletLog w1)" by simp
  from Cons.IH[OF r n this] b show ?case
    by (simp add: walletSiacoinDiffs_keys[OF k] walletSiafundDiffs_keys[OF k]
        walletSiacoinDiffs_append walletSiafundDiffs_append)
qed

lemma processChanges_append:
  "processChanges T w db (xs @ ys) =
     (case processChanges T w db xs of
        Inl p \<Rightarrow> Inl p
      | Inr (w1, db1) \<Rightarrow> processChanges T w1 db1 ys)"
  by (induction xs arbitrary: w db) (auto split: sum.splits)

lemma exReceive_roundtrip:
  "processChanges exTypes exWallet exDB ([exReceiveChange] @ fullRevert [exReceiveChange]) =
     Inr (exWallet, exDB\<lparr>bucketHistoricOutputs := [1010 \<mapsto> 100, 1011 \<mapsto> 50]\<rparr>)"
  by (simp add: fullRevert_def invertChange_def ex_defs run_defs revertBlock_def
      revertTransaction_def siacoinOutputPO_def)

text \<open>
  Claim C2 as stated fails: after scenario S1 and its revert the
  \<open>HistoricOutputs\<close> bucket still holds the two outputs of the transaction, while
  it was empty at the start (the wallet's memory and the other buckets are as at
  the start).
\<close>

theorem C2_historic_outputs_kept_counterexample:
  "processChanges exTypes exWallet exDB ([exReceiveChange] @ fullRevert [exReceiveChange]) =
     Inr (exWallet, exDB\<lparr>bucketHistoricOutputs := [1010 \<mapsto> 100, 1011 \<mapsto> 50]\<rparr>)
   \<and> bucketHistoricOutputs exDB = Map.empty"
  using exReceive_roundtrip by (simp add: exDB_def)

text \<open>
  Claim C2, amended. For every sequence of consensus changes that is processed
  without a logged error and whose siacoin and siafund output diffs for wallet
  addresses are consistent with the buckets, processing the full revert of the
  sequence afterwards, again without a logged error, restores the
  \<open>SiacoinOutputs\<close> and \<open>SiafundOutputs\<close> buckets exactly. The \<open>HistoricOutputs\<close> and
  \<open>HistoricClaimStarts\<close> buckets are not restored: the revert deletes nothing from
  them, every key they hold after the sequence is still there after the revert.
\<close>

theorem C2_revert_restores_confirmed_buckets:
  assumes "processChanges T w db ccs = Inr (w1, db1)"
    and "processChanges T w1 db1 (fullRevert ccs) = Inr (w2, db2)"
    and "\<not> tgStopped w"
    and "walletLog w2 = walletLog w"
    and "consistentDiffs (bucketSiacoinOutputs db)
           (walletSiacoinDiffs w (concat (map SiacoinOutputDiffs ccs)))"
    and "consistentDiffs (bucketSiafundOutputs db)
           (walletSiafundDiffs w (concat (map SiafundOutputDiffs ccs)))"
  shows "bucketSiacoinOutputs db2 = bucketSiacoinOutputs db
     \<and> bucketSiafundOutputs db2 = bucketSiafundOutputs db
     \<and> dom (bucketHistoricOutputs db1) \<subseteq> dom (bucketHistoricOutputs db2)
     \<and> dom (bucketHistoricClaimStarts db1) \<subseteq> dom (bucketHistoricClaimStarts db2)"
proof -
  note m1 = processChanges_log_mono[OF assms(1,3)]
  from m1 have n1: "\<not> tgStopped w1" and k1: "keys w1 = keys w" by simp_all
  note m2 = processChanges_log_mono[OF assms(2) n1]
  from m1 m2 assms(4) have l1: "length (walletLog w1) = length (walletLog w)"
    and l2: "length (walletLog w2) = length (walletLog w1)" by simp_all
  note q1 = processChanges_quiet[OF assms(1,3) l1]
  note q2 = processChanges_quiet[OF assms(2) n1 l2,
      unfolded walletSiacoinDiffs_keys[OF k1] walletSiafundDiffs_keys[OF k1]
        fullRevert_siacoin fullRevert_siafund]
  have "bucketSiacoinOutputs db2 = bucketSiacoinOutputs db"
    using q1 q2 consistentDiffs_undo[OF assms(5)] by simp
  moreover have "bucketSiafundOutputs db2 = bucketSiafundOutputs db"
    using q1 q2 consistentDiffs_undo[OF assms(6)] by simp
  moreover from processChanges_grows[OF assms(2)]
  have "dom (bucketHistoricOutputs db1) \<subseteq> dom (bucketHistoricOutputs db2)
     \<and> dom (bucketHistoricClaimStarts db1) \<subseteq> dom (bucketHistoricClaimStarts db2)"
    by (simp add: historicGrows_def)
  ultimately show ?thesis by simp
qed

text \<open>
  C2 amended, at scenario S1 and its revert: the one output stored for the wallet
  is removed again, and the historic value of the output \<open>1010\<close> stays.
\<close>

theorem C2_revert_restores_confirmed_buckets_witness:
  "\<exists>w1 db1 w2 db2.
     processChanges exTypes exWallet exDB [exReceiveChange] = Inr (w1, db1)
     \<and> processChanges exTypes w1 db1 (fullRevert [exReceiveChange]) = Inr (w2, db2)
     \<and> \<not> tgStopped exWallet
     \<and> walletLog w2 = walletLog exWallet
     \<and> consistentDiffs (bucketSiacoinOutputs exDB)
           (walletSiacoinDiffs exWallet (concat (map SiacoinOutputDiffs [exReceiveChange])))
     \<and> consistentDiffs (bucketSiafundOutputs exDB)
           (walletSiafundDiffs exWallet (concat (map SiafundOutputDiffs [exReceiveChange])))
     \<and> bucketSiacoinOutputs db1 1010 = Some \<lparr>scoValue = 100, scoUnlockHash = 1\<rparr>
     \<and> bucketSiacoinOutputs db2 = bucketSiacoinOutputs exDB
     \<and> bucketSiafundOutputs db2 = bucketSiafundOutputs exDB
     \<and> dom (bucketHistoricOutputs db1) \<subseteq> dom (bucketHistoricOutputs db2)"
proof -
  obtain w1 db1 where
    a: "processChanges exTypes exWallet exDB [exReceiveChange] = Inr (w1, db1)"
    using exReceive_runs by auto
  from a have s: "bucketSiacoinOutputs db1 1010 = Some \<lparr>scoValue = 100, scoUnlockHash = 1\<rparr>"
    by (auto simp add: ex_defs run_defs)
  from exReceive_roundtrip a have
    b: "processChanges exTypes w1 db1 (fullRevert [exReceiveChange]) =
          Inr (exWallet, exDB\<lparr>bucketHistoricOutputs := [1010 \<mapsto> 100, 1011 \<mapsto> 50]\<rparr>)"
    unfolding processChanges_append by (simp split: sum.splits)
  have c: "\<not> tgStopped exWallet" by (simp add: exWallet_def)
  have d: "walletLog exWallet = walletLog exWallet" by simp
  have e: "consistentDiffs (bucketSiacoinOutputs exDB)
           (walletSiacoinDiffs exWallet (concat (map SiacoinOutputDiffs [exReceiveChange])))"
    by (simp add: walletSiacoinDiffs_def isWalletAddress_def ex_defs)
  have f: "consistentDiffs (bucketSiafundOutputs exDB)
           (walletSiafundDiffs exWallet (concat (map SiafundOutputDiffs [exReceiveChange])))"
    by (simp add: walletSiafundDiffs_def isWalletAddress_def ex_defs)
  from C2_revert_restores_confirmed_buckets[OF a b c d e f] a b c d e f s
  show ?thesis by blast
qed

section \<open>The seed scanner at scenario S5\<close>

lemmas scan_defs = scan_def newSeedScanner_def generateKeys_def generateKeysFrom_def
  ConsensusSetSubscribe_def seedScanner_ProcessConsensusChange_def scanBlock_def
  scanTransaction_def promoteMatured_def changeAddrs_def txnAddrs_def
  updateLargestIndexSeen_def exSeed_def exChain_def scanOutcome_def Let_def

lemma exScan_S5:
  "scanOutcome (scan exTypes 10 1000 exChain (newSeedScanner exSeed)) =
     Some (None, 30, 5, [CallSubscribe, CallSubscribe, CallUnsubscribe])"
  by (simp add: scan_defs scanLoop.simps upt_rec exTypes_def)

section \<open>Termination of the seed scanner\<close>

lemma keysAfter_pow: "keysAfter I r + I = I * 2 ^ r"
  by (induction r) auto

lemma keysAfter_mono: "r \<le> r' \<Longrightarrow> keysAfter I r \<le> keysAfter I r'"
proof (induction r' arbitrary: r)
  case 0 then show ?case by simp
next
  case (Suc r')
  show ?case
  proof (cases "r = Suc r'")
    case True then show ?thesis by simp
  next
    case False
    with Suc.prems have "r \<le> r'" by simp
    from Suc.IH[OF this] show ?thesis by simp
  qed
qed

lemma update_set_subset: "set (AList.update k v al) \<subseteq> insert (k, v) (set al)"
  by (induction al) auto

lemma keysOK_update:
  assumes "inj sd" and "keysOK sd n ks"
  shows "keysOK sd (Suc n) (AList.update (sd n) n ks)"
proof -
  have fresh: "sd n \<notin> set (map fst ks)"
  proof
    assume "sd n \<in> set (map fst ks)"
    then obtain i where "(sd n, i) \<in> set ks" by auto
    with assms(2) have "sd n = sd i" "i < n" by (auto simp: keysOK_def)
    with assms(1) show False by (auto dest: injD)
  qed
  have "length (AList.update (sd n) n ks) = length (map fst (AList.update (sd n) n ks))"
    by simp
  also have "\<dots> = Suc (length ks)"
    using fresh unfolding update_keys by simp
  finally have l: "length (AList.update (sd n) n ks) = Suc n"
    using assms(2) by (simp add: keysOK_def)
  have "\<forall>(a, i)\<in>set (AList.update (sd n) n ks). a = sd i \<and> i < Suc n"
    using update_set_subset[of "sd n" n ks] assms(2)
    by (fastforce simp: keysOK_def)
  with l show ?thesis by (simp add: keysOK_def)
qed

lemma keysOK_generate:
  assumes "inj sd" and "keysOK sd n ks"
  shows "keysOK sd (n + m)
           (foldl (\<lambda>ks (i, uh). AList.update uh (n + i) ks) ks
              (enumerate 0 (generateKeysFrom sd n m)))"
proof (induction m)
  case 0
  with assms(2) show ?case by (simp add: generateKeysFrom_def)
next
  case (Suc m)
  have "generateKeysFrom sd n (Suc m) = generateKeysFrom sd n m @ [sd (n + m)]"
    by (simp add: generateKeysFrom_def)
  then have "enumerate 0 (generateKeysFrom sd n (Suc m)) =
               enumerate 0 (generateKeysFrom sd n m) @ [(m, sd (n + m))]"
    by (simp add: enumerate_append_eq generateKeysFrom_def)
  with keysOK_update[OF assms(1) Suc] show ?case by simp
qed

lemma generateKeys_keysOK:
  assumes "inj (seed s)" and "keysOK (seed s) n (skeys s)"
  shows "keysOK (seed s) (n + m) (skeys (generateKeys s m))
     \<and> seed (generateKeys s m) = seed s
     \<and> largestIndexSeen (generateKeys s m) = largestIndexSeen s"
proof -
  from assms(2) have l: "length (skeys s) = n" by (simp add: keysOK_def)
  from keysOK_generate[OF assms, of m] show ?thesis
    by (simp add: generateKeys_def Let_def l)
qed

lemma scanMinerPayouts_same:
  "sameKeys s (scanMinerPayouts T s block i mps)
   \<and> largestIndexSeen (scanMinerPayouts T s block i mps) = largestIndexSeen s"
  by (induction mps arbitrary: s i) (auto simp: sameKeys_def Let_def split: option.splits)

lemma scanSiacoinOutputs_same:
  "sameKeys s (scanSiacoinOutputs T s txn i scos)
   \<and> largestIndexSeen (scanSiacoinOutputs T s txn i scos) = largestIndexSeen s"
  by (induction scos arbitrary: s i) (auto simp: sameKeys_def Let_def split: option.splits)

lemma scanSiacoinInputs_same:
  "sameKeys s (scanSiacoinInputs s scis)
   \<and> largestIndexSeen (scanSiacoinInputs s scis) = largestIndexSeen s"
  by (induction scis arbitrary: s) (auto simp: sameKeys_def)

lemma scanTransaction_same:
  "sameKeys s (scanTransaction T s txn)
   \<and> largestIndexSeen (scanTransaction T s txn) = largestIndexSeen s"
  using scanSiacoinOutputs_same[of s T txn 0 "SiacoinOutputs txn"]
    scanSiacoinInputs_same[of "scanSiacoinOutputs T s txn 0 (SiacoinOutputs txn)" "SiacoinInputs txn"]
  by (simp add: scanTransaction_def sameKeys_def)

lemma scanTransactions_same:
  "sameKeys s (foldl (scanTransaction T) s txns)
   \<and> largestIndexSeen (foldl (scanTransaction T) s txns) = largestIndexSeen s"
proof (induction txns arbitrary: s)
  case Nil show ?case by (simp add: sameKeys_def)
next
  case (Cons t ts)
  from Cons[of "scanTransaction T s t"] scanTransaction_same[of s T t]
  show ?case by (simp add: sameKeys_def)
qed

lemma scanBlock_same:
  "sameKeys s (scanBlock T s block)
   \<and> largestIndexSeen (scanBlock T s block) = largestIndexSeen s"
proof -
  define s1 where "s1 = promoteMatured (s\<lparr>blockheight := blockheight s + 1\<rparr>)"
  have a: "sameKeys s s1 \<and> largestIndexSeen s1 = largestIndexSeen s"
    by (simp add: s1_def promoteMatured_def sameKeys_def split: option.splits)
  define s2 where "s2 = scanMinerPayouts T s1 block 0 (MinerPayouts block)"
  have b: "sameKeys s1 s2 \<and> largestIndexSeen s2 = largestIndexSeen s1"
    unfolding s2_def by (rule scanMinerPayouts_same)
  have c: "sameKeys s2 (foldl (scanTransaction T) s2 (Transactions block))
     \<and> largestIndexSeen (foldl (scanTransaction T) s2 (Transactions block)) = largestIndexSeen s2"
    by (rule scanTransactions_same)
  have "scanBlock T s block = foldl (scanTransaction T) s2 (Transactions block)"
    by (simp add: scanBlock_def s2_def s1_def)
  with a b c show ?thesis by (simp add: sameKeys_def)
qed

lemma scanBlocks_same:
  "sameKeys s (foldl (scanBlock T) s blocks)
   \<and> largestIndexSeen (foldl (scanBlock T) s blocks) = largestIndexSeen s"
proof (induction blocks arbitrary: s)
  case Nil show ?case by (simp add: sameKeys_def)
next
  case (Cons b bs)
  from Cons[of "scanBlock T s b"] scanBlock_same[of s T b]
  show ?case by (simp add: sameKeys_def)
qed

lemma updateLargestIndexSeen_bound:
  assumes "largestIndexSeen s < K"
    and "\<forall>a\<in>set addrs. \<forall>i. map_of (skeys s) a = Some i \<longrightarrow> i < K"
  shows "sameKeys s (foldl updateLargestIndexSeen s addrs)
     \<and> largestIndexSeen (foldl updateLargestIndexSeen s addrs) < K"
  using assms
proof (induction addrs arbitrary: s)
  case Nil then show ?case by (simp add: sameKeys_def)
next
  case (Cons a as)
  define s1 where "s1 = updateLargestIndexSeen s a"
  have k: "skeys s1 = skeys s" "seed s1 = seed s"
    by (simp_all add: s1_def updateLargestIndexSeen_def split: option.splits)
  have l: "largestIndexSeen s1 < K"
    using Cons.prems by (auto simp: s1_def updateLargestIndexSeen_def split: option.splits)
  from Cons.prems(2) k have "\<forall>a\<in>set as. \<forall>i. map_of (skeys s1) a = Some i \<longrightarrow> i < K"
    by simp
  from Cons.IH[OF l this] k show ?case by (simp add: s1_def sameKeys_def)
qed

lemma scanner_change_bound:
  assumes "largestIndexSeen s < K"
    and "\<forall>a\<in>set (changeAddrs cc). \<forall>i. map_of (skeys s) a = Some i \<longrightarrow> i < K"
  shows "sameKeys s (seedScanner_ProcessConsensusChange T s cc)
     \<and> largestIndexSeen (seedScanner_ProcessConsensusChange T s cc) < K"
proof -
  define s1 where "s1 = foldl (scanBlock T)
          (s\<lparr>blockheight := blockheight s - of_nat (length (RevertedBlocks cc))\<rparr>)
          (AppliedBlocks cc)"
  have a: "sameKeys s s1 \<and> largestIndexSeen s1 = largestIndexSeen s"
    using scanBlocks_same[of "s\<lparr>blockheight := blockheight s - of_nat (length (RevertedBlocks cc))\<rparr>"
        T "AppliedBlocks cc"]
    by (simp add: s1_def sameKeys_def)
  with assms have "largestIndexSeen s1 < K"
    "\<forall>a\<in>set (changeAddrs cc). \<forall>i. map_of (skeys s1) a = Some i \<longrightarrow> i < K"
    by (simp_all add: sameKeys_def)
  from updateLargestIndexSeen_bound[OF this] a show ?thesis
    by (simp add: seedScanner_ProcessConsensusChange_def s1_def sameKeys_def)
qed

lemma subscribe_bound:
  assumes "csSubscribeError cs = None"
    and "activityBelow (seed s) cs K"
    and "keysOK (seed s) n (skeys s)"
    and "largestIndexSeen s < K"
  shows "\<exists>s'. ConsensusSetSubscribe T cs s = Inr s' \<and> sameKeys s s' \<and> largestIndexSeen s' < K"
proof -
  have "sameKeys s (foldl (seedScanner_ProcessConsensusChange T) s ccs)
     \<and> largestIndexSeen (foldl (seedScanner_ProcessConsensusChange T) s ccs) < K"
    if "\<forall>cc\<in>set ccs. \<forall>a\<in>set (changeAddrs cc). \<forall>i. a = seed s i \<longrightarrow> i < K"
      and "keysOK (seed s) n (skeys s)" and "largestIndexSeen s < K"
    for ccs s
    using that
  proof (induction ccs arbitrary: s)
    case Nil then show ?case by (simp add: sameKeys_def)
  next
    case (Cons cc ccs)
    have "\<forall>a\<in>set (changeAddrs cc). \<forall>i. map_of (skeys s) a = Some i \<longrightarrow> i < K"
    proof (intro ballI allI impI)
      fix a i assume a: "a \<in> set (changeAddrs cc)" and m: "map_of (skeys s) a = Some i"
      from map_of_SomeD[OF m] Cons.prems(2) have "a = seed s i" by (auto simp: keysOK_def)
      with Cons.prems(1) a show "i < K" by simp
    qed
    note st = scanner_change_bound[OF Cons.prems(3) this, of T]
    define s1 where "s1 = seedScanner_ProcessConsensusChange T s cc"
    from st have k: "skeys s1 = skeys s" "seed s1 = seed s" and l: "largestIndexSeen s1 < K"
      by (simp_all add: s1_def sameKeys_def)
    have "sameKeys s1 (foldl (seedScanner_ProcessConsensusChange T) s1 ccs)
     \<and> largestIndexSeen (foldl (seedScanner_ProcessConsensusChange T) s1 ccs) < K"
      using Cons.IH[of s1] Cons.prems k l by simp
    with k show ?case by (simp add: s1_def sameKeys_def)
  qed
  from this[of "csHistory cs" s] assms show ?thesis
    by (simp add: ConsensusSetSubscribe_def activityBelow_def)
qed

text \<open>One round of the loop in which the subscription succeeds.\<close>

lemma scanLoop_round:
  assumes "length (skeys s) < M" and "ConsensusSetSubscribe T cs (generateKeys s m) = Inr s2"
  shows "scanLoop T M cs s m calls =
      (if largestIndexSeen s2 < length (skeys s2) div 2
       then Some (None, s2, calls @ [CallSubscribe, CallUnsubscribe])
       else scanLoop T M cs s2
                 (if (m * 2) mod 2 ^ 64 > (M + 2 ^ 64 - length (skeys s2)) mod 2 ^ 64
                  then (M + 2 ^ 64 - length (skeys s2)) mod 2 ^ 64
                  else (m * 2) mod 2 ^ 64) (calls @ [CallSubscribe]))"
  using scanLoop.simps[of T M cs s m calls] assms
  by (simp only: if_True sum.case)

lemma scanLoop_terminates:
  assumes inj: "inj sd" and I: "1 \<le> I" and K: "1 \<le> K" and KM: "2 * K \<le> M"
    and M: "M < 2 ^ 63" and sub: "csSubscribeError cs = None"
    and act: "activityBelow sd cs K" and R: "2 * K \<le> keysAfter I R"
  shows "r < R \<Longrightarrow> seed s = sd \<Longrightarrow> keysOK sd (keysAfter I r) (skeys s) \<Longrightarrow>
     largestIndexSeen s < K \<Longrightarrow> keysAfter I r < M \<Longrightarrow> 1 \<le> m \<Longrightarrow>
     (m = I * 2 ^ r \<or> (m \<le> I * 2 ^ r \<and> keysAfter I r + m = M)) \<Longrightarrow>
     \<exists>s' calls'. scanLoop T M cs s m calls = Some (None, s', calls @ calls')
        \<and> length (filter (\<lambda>c. c = CallSubscribe) calls') \<le> R - r
        \<and> length (skeys s') \<le> max (keysAfter I (Suc r)) (4 * K + I - 2)"
proof (induction d \<equiv> "R - r" arbitrary: r s m calls)
  case 0
  then show ?case by simp
next
  case (Suc d)
  note rR = Suc.prems(1) and sd = Suc.prems(2) and ok = Suc.prems(3)
    and lg = Suc.prems(4) and gM = Suc.prems(5) and m1 = Suc.prems(6) and mm = Suc.prems(7)
  define n' where "n' = keysAfter I r + m"
  define s1 where "s1 = generateKeys s m"
  from generateKeys_keysOK[of s "keysAfter I r" m] inj sd ok lg
  have ok1: "keysOK (seed s1) n' (skeys s1)" and sd1: "seed s1 = sd"
    and lg1: "largestIndexSeen s1 < K"
    by (simp_all add: s1_def n'_def)
  from subscribe_bound[OF sub _ ok1 lg1, of T] act sd1 obtain s2 where
    sb: "ConsensusSetSubscribe T cs s1 = Inr s2" and k2: "skeys s2 = skeys s1" "seed s2 = sd"
    and lg2: "largestIndexSeen s2 < K"
    by (auto simp: sameKeys_def)
  from ok1 k2 sd1 have ok2: "keysOK sd n' (skeys s2)" by simp
  then have len2: "length (skeys s2) = n'" by (simp add: keysOK_def)
  from ok have len: "length (skeys s) = keysAfter I r" by (simp add: keysOK_def)
  have n'le: "n' \<le> keysAfter I (Suc r)"
    using mm keysAfter_pow[of I r] by (auto simp: n'_def)
  define m' where "m' =
      (if (m * 2) mod 2 ^ 64 > (M + 2 ^ 64 - n') mod 2 ^ 64
       then (M + 2 ^ 64 - n') mod 2 ^ 64 else (m * 2) mod 2 ^ 64)"
  have eq: "scanLoop T M cs s m calls =
      (if largestIndexSeen s2 < n' div 2
       then Some (None, s2, calls @ [CallSubscribe, CallUnsubscribe])
       else scanLoop T M cs s2 m' (calls @ [CallSubscribe]))"
  proof -
    have g: "length (skeys s) < M" using len gM by simp
    show ?thesis
      unfolding m'_def
      using scanLoop_round[OF g sb[unfolded s1_def], of calls] unfolding len2 .
  qed
  show ?case
  proof (cases "largestIndexSeen s2 < n' div 2")
    case True
    with eq have "scanLoop T M cs s m calls =
        Some (None, s2, calls @ [CallSubscribe, CallUnsubscribe])" by simp
    moreover have "length (filter (\<lambda>c. c = CallSubscribe) [CallSubscribe, CallUnsubscribe])
        \<le> R - r" using rR by simp
    moreover have "length (skeys s2) \<le> max (keysAfter I (Suc r)) (4 * K + I - 2)"
      using len2 n'le by simp
    ultimately show ?thesis by blast
  next
    case False
    with lg2 have half: "n' div 2 < K" by simp
    then have n'K: "n' < 2 * K" by simp
    have unclamped: "m = I * 2 ^ r"
    proof (rule ccontr)
      assume "m \<noteq> I * 2 ^ r"
      with mm have "n' = M" by (simp add: n'_def)
      with n'K KM show False by simp
    qed
    with keysAfter_pow[of I r] have n'eq: "n' = keysAfter I (Suc r)"
      by (simp add: n'_def)
    have n'M: "n' < M" using n'K KM by simp
    have SrR: "Suc r < R"
    proof (rule ccontr)
      assume "\<not> Suc r < R"
      then have "R \<le> Suc r" by simp
      from keysAfter_mono[OF this, of I] R n'K n'eq show False by simp
    qed
    have mle: "m \<le> n'" by (simp add: n'_def)
    define B where "B = (2::nat) ^ 63"
    have B64: "(2::nat) ^ 64 = 2 * B" by (simp add: B_def)
    have MB: "M < B" using M by (simp add: B_def)
    have m2: "(m * 2) mod 2 ^ 64 = 2 * m"
    proof -
      from mle n'M MB have "m * 2 < 2 * B" by linarith
      then have "(m * 2) mod (2 * B) = m * 2" by (rule mod_less)
      then show ?thesis by (simp only: B64 mult.commute)
    qed
    have sub64: "(M + 2 ^ 64 - n') mod 2 ^ 64 = M - n'"
    proof -
      from n'M have "M + 2 * B - n' = (M - n') + 2 * B" by linarith
      moreover from MB have "M - n' < 2 * B" by linarith
      then have "(M - n') mod (2 * B) = M - n'" by (rule mod_less)
      ultimately have "(M + 2 * B - n') mod (2 * B) = M - n'"
        by (simp only: mod_add_self2)
      then show ?thesis by (simp only: B64)
    qed
    have m'eq: "m' = (if 2 * m > M - n' then M - n' else 2 * m)"
      by (simp only: m'_def m2 sub64)
    have m'1: "1 \<le> m'" using m1 n'M unfolding m'eq by (auto split: if_splits)
    have m'c: "m' = I * 2 ^ Suc r \<or> (m' \<le> I * 2 ^ Suc r \<and> keysAfter I (Suc r) + m' = M)"
      using unclamped n'M n'eq by (auto simp: m'eq)
    have d: "d = R - Suc r" using Suc.hyps(2) by simp
    from Suc.hyps(1)[OF d SrR k2(2) ok2[unfolded n'eq] lg2 n'M[unfolded n'eq] m'1 m'c,
        of "calls @ [CallSubscribe]"]
    obtain s' calls'' where
      res: "scanLoop T M cs s2 m' (calls @ [CallSubscribe]) =
              Some (None, s', (calls @ [CallSubscribe]) @ calls'')"
      and cnt: "length (filter (\<lambda>c. c = CallSubscribe) calls'') \<le> R - Suc r"
      and ks: "length (skeys s') \<le> max (keysAfter I (Suc (Suc r))) (4 * K + I - 2)"
      by blast
    have "keysAfter I (Suc (Suc r)) \<le> 4 * K + I - 2"
      using n'K n'eq by simp
    with ks have ks': "length (skeys s') \<le> max (keysAfter I (Suc r)) (4 * K + I - 2)"
      by simp
    from eq False res have "scanLoop T M cs s m calls =
        Some (None, s', calls @ (CallSubscribe # calls''))" by simp
    moreover from cnt SrR have
      "length (filter (\<lambda>c. c = CallSubscribe) (CallSubscribe # calls'')) \<le> R - r"
      by simp
    ultimately show ?thesis using ks' by blast
  qed
qed

text \<open>
  Claim C4, amended. When the on-chain activity of a seed only ever used the
  seed indices in \<open>[0, K)\<close> (\<open>K \<ge> 1\<close>), the seed derives distinct addresses, the
  subscription does not fail and \<open>2 * K \<le> maxScanKeys < 2 ^ 63\<close>, the scan of a
  new scanner returns without error, after at most \<open>n + 1\<close> subscription rounds
  for every \<open>n\<close> with \<open>2 * K \<le> numInitialKeys * 2 ^ n\<close> (that is,
  \<open>max 0 (ceil (log2 (2 * K / numInitialKeys))) + 1\<close> rounds), and with at most
  \<open>4 * K + numInitialKeys - 2\<close> keys generated.
\<close>

theorem C4_scan_terminates:
  assumes "inj sd" and "1 \<le> initialKeys" and "1 \<le> K" and "2 * K \<le> maxKeys"
    and "maxKeys < 2 ^ 63" and "csSubscribeError cs = None"
    and "activityBelow sd cs K" and "2 * K \<le> initialKeys * 2 ^ n"
  shows "\<exists>s' calls. scan T initialKeys maxKeys cs (newSeedScanner sd) = Some (None, s', calls)
     \<and> length (filter (\<lambda>c. c = CallSubscribe) calls) \<le> n + 1
     \<and> length (skeys s') \<le> 4 * K + initialKeys - 2"
proof -
  have R: "2 * K \<le> keysAfter initialKeys (Suc n)"
  proof (cases "initialKeys \<le> 2 * K")
    case True
    from keysAfter_pow[of initialKeys n] assms(8) True show ?thesis by simp
  next
    case False
    have "keysAfter initialKeys (Suc 0) \<le> keysAfter initialKeys (Suc n)"
      by (rule keysAfter_mono) simp
    with False show ?thesis by simp
  qed
  have ok: "keysOK sd (keysAfter initialKeys 0) (skeys (newSeedScanner sd))"
    by (simp add: keysOK_def newSeedScanner_def)
  have "\<exists>s' calls'. scanLoop T maxKeys cs (newSeedScanner sd) initialKeys [] =
          Some (None, s', [] @ calls')
        \<and> length (filter (\<lambda>c. c = CallSubscribe) calls') \<le> Suc n - 0
        \<and> length (skeys s') \<le> max (keysAfter initialKeys (Suc 0)) (4 * K + initialKeys - 2)"
  proof (rule scanLoop_terminates[OF assms(1,2,3,4,5,6,7) R _ _ ok])
    show "0 < Suc n" by simp
    show "seed (newSeedScanner sd) = sd" by (simp add: newSeedScanner_def)
    show "largestIndexSeen (newSeedScanner sd) < K"
      using assms(3) by (simp add: newSeedScanner_def)
    show "keysAfter initialKeys 0 < maxKeys" using assms(3,4) by simp
    show "1 \<le> initialKeys" by (rule assms(2))
    show "initialKeys = initialKeys * 2 ^ 0
      \<or> initialKeys \<le> initialKeys * 2 ^ 0 \<and> keysAfter initialKeys 0 + initialKeys = maxKeys"
      by simp
  qed
  moreover have "max (keysAfter initialKeys (Suc 0)) (4 * K + initialKeys - 2) =
      4 * K + initialKeys - 2" using assms(3) by simp
  ultimately show ?thesis by (simp add: scan_def)
qed

section \<open>Rounds of the seed scanner\<close>

lemma generate_lookup:
  assumes "inj sd" and "\<forall>i<n. map_of ks (sd i) = Some i"
  shows "\<forall>i<n + m. map_of (foldl (\<lambda>ks (i, uh). AList.update uh (n + i) ks) ks
              (enumerate 0 (generateKeysFrom sd n m))) (sd i) = Some i"
proof (induction m)
  case 0
  with assms(2) show ?case by (simp add: generateKeysFrom_def)
next
  case (Suc m)
  have "generateKeysFrom sd n (Suc m) = generateKeysFrom sd n m @ [sd (n + m)]"
    by (simp add: generateKeysFrom_def)
  then have e: "enumerate 0 (generateKeysFrom sd n (Suc m)) =
               enumerate 0 (generateKeysFrom sd n m) @ [(m, sd (n + m))]"
    by (simp add: enumerate_append_eq generateKeysFrom_def)
  show ?case
  proof (intro allI impI)
    fix i assume i: "i < n + Suc m"
    show "map_of (foldl (\<lambda>ks (i, uh). AList.update uh (n + i) ks) ks
              (enumerate 0 (generateKeysFrom sd n (Suc m)))) (sd i) = Some i"
    proof (cases "i = n + m")
      case True
      then show ?thesis by (simp add: e update_conv')
    next
      case False
      with i have "i < n + m" by simp
      moreover from False assms(1) have "sd i \<noteq> sd (n + m)" by (auto dest: injD)
      ultimately show ?thesis using Suc by (simp add: e update_conv')
    qed
  qed
qed

lemma generateKeys_new:
  assumes "inj sd"
  shows "keysOK sd n (skeys (generateKeys (newSeedScanner sd) n))
     \<and> (\<forall>i<n. map_of (skeys (generateKeys (newSeedScanner sd) n)) (sd i) = Some i)
     \<and> largestIndexSeen (generateKeys (newSeedScanner sd) n) = 0"
proof -
  have s: "seed (newSeedScanner sd) = sd" "skeys (newSeedScanner sd) = []"
    "largestIndexSeen (newSeedScanner sd) = 0"
    by (simp_all add: newSeedScanner_def)
  have ok: "keysOK (seed (newSeedScanner sd)) 0 (skeys (newSeedScanner sd))"
    by (simp add: keysOK_def s)
  from generateKeys_keysOK[of "newSeedScanner sd" 0 n] assms ok s
  have "keysOK sd n (skeys (generateKeys (newSeedScanner sd) n))"
    "largestIndexSeen (generateKeys (newSeedScanner sd) n) = 0"
    by simp_all
  moreover from generate_lookup[OF assms, of 0 "[]" n]
  have "\<forall>i<n. map_of (skeys (generateKeys (newSeedScanner sd) n)) (sd i) = Some i"
    by (simp add: generateKeys_def s)
  ultimately show ?thesis by simp
qed

lemma updateLargestIndexSeen_lower:
  "sameKeys s (foldl updateLargestIndexSeen s addrs)
   \<and> largestIndexSeen s \<le> largestIndexSeen (foldl updateLargestIndexSeen s addrs)
   \<and> (\<forall>a\<in>set addrs. \<forall>i. map_of (skeys s) a = Some i \<longrightarrow>
         i \<le> largestIndexSeen (foldl updateLargestIndexSeen s addrs))"
proof (induction addrs arbitrary: s)
  case Nil show ?case by (simp add: sameKeys_def)
next
  case (Cons a as)
  define s1 where "s1 = updateLargestIndexSeen s a"
  have k: "skeys s1 = skeys s" "seed s1 = seed s"
    by (simp_all add: s1_def updateLargestIndexSeen_def split: option.splits)
  have l: "largestIndexSeen s \<le> largestIndexSeen s1"
    by (simp add: s1_def updateLargestIndexSeen_def split: option.splits)
  have h: "\<forall>i. map_of (skeys s) a = Some i \<longrightarrow> i \<le> largestIndexSeen s1"
    by (simp add: s1_def updateLargestIndexSeen_def split: option.splits)
  note ih = Cons.IH[of s1]
  from ih k have "sameKeys s (foldl updateLargestIndexSeen s1 as)"
    by (simp add: sameKeys_def)
  moreover from ih l have "largestIndexSeen s \<le> largestIndexSeen (foldl updateLargestIndexSeen s1 as)"
    by simp
  moreover have "\<forall>b\<in>set (a # as). \<forall>i. map_of (skeys s) b = Some i \<longrightarrow>
         i \<le> largestIndexSeen (foldl updateLargestIndexSeen s1 as)"
    using ih h k by (auto intro: order_trans)
  ultimately show ?case by (simp add: s1_def)
qed

lemma scanner_change_lower:
  "sameKeys s (seedScanner_ProcessConsensusChange T s cc)
   \<and> largestIndexSeen s \<le> largestIndexSeen (seedScanner_ProcessConsensusChange T s cc)
   \<and> (\<forall>a\<in>set (changeAddrs cc). \<forall>i. map_of (skeys s) a = Some i \<longrightarrow>
         i \<le> largestIndexSeen (seedScanner_ProcessConsensusChange T s cc))"
proof -
  define s1 where "s1 = foldl (scanBlock T)
          (s\<lparr>blockheight := blockheight s - of_nat (length (RevertedBlocks cc))\<rparr>)
          (AppliedBlocks cc)"
  have a: "skeys s1 = skeys s" "seed s1 = seed s" "largestIndexSeen s1 = largestIndexSeen s"
    using scanBlocks_same[of "s\<lparr>blockheight := blockheight s - of_nat (length (RevertedBlocks cc))\<rparr>"
        T "AppliedBlocks cc"]
    by (simp_all add: s1_def sameKeys_def)
  from updateLargestIndexSeen_lower[of s1 "changeAddrs cc"] a show ?thesis
    by (simp add: seedScanner_ProcessConsensusChange_def s1_def sameKeys_def)
qed

lemma deliver_lower:
  "sameKeys s (foldl (seedScanner_ProcessConsensusChange T) s ccs)
   \<and> largestIndexSeen s \<le> largestIndexSeen (foldl (seedScanner_ProcessConsensusChange T) s ccs)
   \<and> (\<forall>cc\<in>set ccs. \<forall>a\<in>set (changeAddrs cc). \<forall>i. map_of (skeys s) a = Some i \<longrightarrow>
         i \<le> largestIndexSeen (foldl (seedScanner_ProcessConsensusChange T) s ccs))"
proof (induction ccs arbitrary: s)
  case Nil show ?case by (simp add: sameKeys_def)
next
  case (Cons cc ccs)
  define s1 where "s1 = seedScanner_ProcessConsensusChange T s cc"
  note st = scanner_change_lower[of s T cc, folded s1_def]
  from st have k: "skeys s1 = skeys s" "seed s1 = seed s" by (simp_all add: sameKeys_def)
  note ih = Cons.IH[of s1]
  from ih k have "sameKeys s (foldl (seedScanner_ProcessConsensusChange T) s1 ccs)"
    by (simp add: sameKeys_def)
  moreover from ih st have
    "largestIndexSeen s \<le> largestIndexSeen (foldl (seedScanner_ProcessConsensusChange T) s1 ccs)"
    by simp
  moreover have "\<forall>c\<in>set (cc # ccs). \<forall>a\<in>set (changeAddrs c). \<forall>i.
         map_of (skeys s) a = Some i \<longrightarrow>
         i \<le> largestIndexSeen (foldl (seedScanner_ProcessConsensusChange T) s1 ccs)"
    using ih st k by (auto intro: order_trans)
  ultimately show ?case by (simp add: s1_def)
qed

text \<open>A scan whose first round passes the termination test.\<close>

lemma scan_one_round:
  assumes "inj sd" and "csSubscribeError cs = None" and "activityBelow sd cs K"
    and "1 \<le> K" and "K \<le> initialKeys div 2" and "0 < maxKeys"
  shows "\<exists>s'. scan T initialKeys maxKeys cs (newSeedScanner sd) =
                 Some (None, s', [CallSubscribe, CallUnsubscribe])
           \<and> length (skeys s') = initialKeys \<and> largestIndexSeen s' < K
           \<and> skeys s' = skeys (generateKeys (newSeedScanner sd) initialKeys)
           \<and> s' = foldl (seedScanner_ProcessConsensusChange T)
                    (generateKeys (newSeedScanner sd) initialKeys) (csHistory cs)"
proof -
  define s1 where "s1 = generateKeys (newSeedScanner sd) initialKeys"
  from generateKeys_new[OF assms(1), of initialKeys]
  have ok: "keysOK sd initialKeys (skeys s1)" and l0: "largestIndexSeen s1 = 0"
    by (simp_all add: s1_def)
  have sd1: "seed s1 = sd" by (simp add: s1_def generateKeys_def Let_def newSeedScanner_def)
  from l0 assms(4) have l1: "largestIndexSeen s1 < K" by simp
  from subscribe_bound[OF assms(2) _ _ l1, of initialKeys T] assms(3) ok sd1
  obtain s2 where sb: "ConsensusSetSubscribe T cs s1 = Inr s2"
    and k2: "skeys s2 = skeys s1" and l2: "largestIndexSeen s2 < K"
    by (auto simp: sameKeys_def)
  from sb assms(2) have s2: "s2 = foldl (seedScanner_ProcessConsensusChange T) s1 (csHistory cs)"
    by (simp add: ConsensusSetSubscribe_def)
  from ok k2 have len: "length (skeys s2) = initialKeys" by (simp add: keysOK_def)
  have g: "length (skeys (newSeedScanner sd)) < maxKeys"
    using assms(6) by (simp add: newSeedScanner_def)
  from l2 assms(5) len have t: "largestIndexSeen s2 < length (skeys s2) div 2" by simp
  from scanLoop_round[OF g sb[unfolded s1_def], of "[]"] t
  have "scan T initialKeys maxKeys cs (newSeedScanner sd) =
          Some (None, s2, [CallSubscribe, CallUnsubscribe])"
    by (simp add: scan_def)
  with len l2 k2 s2 show ?thesis by (simp add: s1_def)
qed

text \<open>
  Claim C5. When the chain holds an address of the seed whose index lies in the
  upper half of the initial keys, the termination test fails in the first round;
  the scan then goes on to the second subscription with the calls on the
  consensus set being the first subscription alone: no unsubscription precedes
  the doubling of \<open>numKeys\<close> and the next round's subscription. After the second
  round the calls are two subscriptions, followed by the unsubscription of the
  successful return or by the calls of the further rounds.
\<close>

theorem C5_resubscribes_without_unsubscribe:
  assumes "inj sd" and "csSubscribeError cs = None"
    and "cc \<in> set (csHistory cs)" and "sd i \<in> set (changeAddrs cc)"
    and "initialKeys div 2 \<le> i" and "i < initialKeys" and "initialKeys < maxKeys"
  shows "\<exists>s1 numKeys1 s2 numKeys2.
           scan T initialKeys maxKeys cs (newSeedScanner sd) =
             scanLoop T maxKeys cs s1 numKeys1 [CallSubscribe]
           \<and> scanLoop T maxKeys cs s1 numKeys1 [CallSubscribe] =
               (if largestIndexSeen s2 < length (skeys s2) div 2
                then Some (None, s2, [CallSubscribe, CallSubscribe, CallUnsubscribe])
                else scanLoop T maxKeys cs s2 numKeys2 [CallSubscribe, CallSubscribe])"
proof -
  define s0 where "s0 = generateKeys (newSeedScanner sd) initialKeys"
  define s1 where "s1 = foldl (seedScanner_ProcessConsensusChange T) s0 (csHistory cs)"
  from generateKeys_new[OF assms(1), of initialKeys]
  have ok: "keysOK sd initialKeys (skeys s0)"
    and lk: "\<forall>j<initialKeys. map_of (skeys s0) (sd j) = Some j"
    by (simp_all add: s0_def)
  have sb1: "ConsensusSetSubscribe T cs s0 = Inr s1"
    using assms(2) by (simp add: ConsensusSetSubscribe_def s1_def)
  note d = deliver_lower[of s0 T "csHistory cs", folded s1_def]
  from d have k1: "skeys s1 = skeys s0" by (simp add: sameKeys_def)
  from lk assms(6) have "map_of (skeys s0) (sd i) = Some i" by simp
  with d assms(3,4) have "i \<le> largestIndexSeen s1" by blast
  moreover from ok k1 have len1: "length (skeys s1) = initialKeys" by (simp add: keysOK_def)
  ultimately have t1: "\<not> largestIndexSeen s1 < length (skeys s1) div 2"
    using assms(5) by simp
  have g0: "length (skeys (newSeedScanner sd)) < maxKeys"
    using assms(7) by (simp add: newSeedScanner_def)
  define numKeys1 where "numKeys1 =
      (if (initialKeys * 2) mod 2 ^ 64 > (maxKeys + 2 ^ 64 - length (skeys s1)) mod 2 ^ 64
       then (maxKeys + 2 ^ 64 - length (skeys s1)) mod 2 ^ 64
       else (initialKeys * 2) mod 2 ^ 64)"
  from scanLoop_round[OF g0 sb1[unfolded s0_def], of "[]"] t1
  have r1: "scan T initialKeys maxKeys cs (newSeedScanner sd) =
              scanLoop T maxKeys cs s1 numKeys1 [CallSubscribe]"
    by (simp add: scan_def numKeys1_def)
  define s2 where "s2 = foldl (seedScanner_ProcessConsensusChange T)
                          (generateKeys s1 numKeys1) (csHistory cs)"
  have sb2: "ConsensusSetSubscribe T cs (generateKeys s1 numKeys1) = Inr s2"
    using assms(2) by (simp add: ConsensusSetSubscribe_def s2_def)
  have g1: "length (skeys s1) < maxKeys" using len1 assms(7) by simp
  from scanLoop_round[OF g1 sb2, of "[CallSubscribe]"]
  have "\<exists>numKeys2. scanLoop T maxKeys cs s1 numKeys1 [CallSubscribe] =
               (if largestIndexSeen s2 < length (skeys s2) div 2
                then Some (None, s2, [CallSubscribe, CallSubscribe, CallUnsubscribe])
                else scanLoop T maxKeys cs s2 numKeys2 [CallSubscribe, CallSubscribe])"
    by auto
  with r1 show ?thesis by blast
qed

section \<open>The seed scanner: scenario S5 and the testing release\<close>

lemma exSeed_inj: "inj exSeed"
  by (rule injI) (simp add: exSeed_def)

lemma exChain_activity: "activityBelow exSeed exChain 6"
  by (auto simp: activityBelow_def exChain_def changeAddrs_def txnAddrs_def exSeed_def)

lemma exScan_testing:
  "scanOutcome (scan exTypes (numInitialKeys testing) (maxScanKeys testing) exChain
     (newSeedScanner exSeed)) = Some (None, 1000, 5, [CallSubscribe, CallUnsubscribe])"
proof -
  have n: "csSubscribeError exChain = None" by (simp add: exChain_def)
  from scan_one_round[OF exSeed_inj n exChain_activity, of 1000 100000 exTypes]
  obtain s' where
    r: "scan exTypes 1000 100000 exChain (newSeedScanner exSeed) =
          Some (None, s', [CallSubscribe, CallUnsubscribe])"
    and len: "length (skeys s') = 1000" and up: "largestIndexSeen s' < 6"
    and s': "s' = foldl (seedScanner_ProcessConsensusChange exTypes)
                    (generateKeys (newSeedScanner exSeed) 1000) (csHistory exChain)"
    by auto
  have "map_of (skeys (generateKeys (newSeedScanner exSeed) 1000)) (exSeed 5) = Some 5"
    using generateKeys_new[OF exSeed_inj, of 1000] by simp
  moreover have "exSeed 5 \<in> set (changeAddrs (hd (csHistory exChain)))"
    "hd (csHistory exChain) \<in> set (csHistory exChain)"
    by (simp_all add: exChain_def changeAddrs_def txnAddrs_def exSeed_def)
  ultimately have "5 \<le> largestIndexSeen s'"
    using deliver_lower[of "generateKeys (newSeedScanner exSeed) 1000" exTypes "csHistory exChain"]
    unfolding s' by blast
  with up have "largestIndexSeen s' = 5" by simp
  with r len show ?thesis by (simp add: scanOutcome_def)
qed

text \<open>
  Claim C4 as stated fails: in scenario S5 only the indices 0, 1 and 5 appear on
  the chain, so \<open>K = 6\<close>; with 10 initial keys the scan returns without error
  after two subscriptions, with 30 keys generated, which is more than \<open>4 * K\<close>.
  With the constants of the testing release the same chain is scanned in one
  round with 1000 keys.
\<close>

theorem C4_more_than_4K_keys_counterexample:
  "activityBelow exSeed exChain 6
   \<and> scanOutcome (scan exTypes 10 1000 exChain (newSeedScanner exSeed)) =
       Some (None, 30, 5, [CallSubscribe, CallSubscribe, CallUnsubscribe])
   \<and> \<not> (30 \<le> 4 * (6::nat))
   \<and> scanOutcome (scan exTypes (numInitialKeys testing) (maxScanKeys testing) exChain
        (newSeedScanner exSeed)) = Some (None, 1000, 5, [CallSubscribe, CallUnsubscribe])
   \<and> \<not> (1000 \<le> 4 * (6::nat))"
  using exChain_activity exScan_S5 exScan_testing by simp

text \<open>
  C4 amended, at scenario S5: \<open>2 * 6 \<le> 10 * 2 ^ 1\<close>, so the scan returns after at
  most two subscriptions with at most 32 keys.
\<close>

theorem C4_scan_terminates_witness:
  "inj exSeed \<and> (1::nat) \<le> 10 \<and> (1::nat) \<le> 6 \<and> 2 * 6 \<le> (1000::nat)
   \<and> (1000::nat) < 2 ^ 63 \<and> csSubscribeError exChain = None
   \<and> activityBelow exSeed exChain 6 \<and> 2 * 6 \<le> (10::nat) * 2 ^ 1
   \<and> (\<exists>s' calls. scan exTypes 10 1000 exChain (newSeedScanner exSeed) = Some (None, s', calls)
        \<and> length (filter (\<lambda>c. c = CallSubscribe) calls) \<le> 1 + 1
        \<and> length (skeys s') \<le> 4 * 6 + 10 - 2)"
proof -
  have a: "(1::nat) \<le> 10" "(1::nat) \<le> 6" "2 * 6 \<le> (1000::nat)" "(1000::nat) < 2 ^ 63"
    "2 * 6 \<le> (10::nat) * 2 ^ 1"
    by simp_all
  have b: "csSubscribeError exChain = None" by (simp add: exChain_def)
  from C4_scan_terminates[OF exSeed_inj a(1) a(2) a(3) a(4) b exChain_activity a(5), of exTypes]
  show ?thesis using exSeed_inj a b exChain_activity by simp
qed

lemma exScan_two_keys:
  "scanOutcome (scan exTypes 2 1000 exChain (newSeedScanner exSeed)) =
     Some (None, 14, 5, [CallSubscribe, CallSubscribe, CallSubscribe, CallUnsubscribe])"
  by (simp add: scan_defs scanLoop.simps upt_rec exTypes_def)

text \<open>
  C5 with the constants of the testing release, on the chain that pays to the
  address of index 500: the second subscription follows the first directly.
  With 2 initial keys the run on the chain of S5 can be computed to its end:
  the test fails twice, and the calls are three subscriptions and one
  unsubscription.
\<close>

theorem C5_resubscribes_without_unsubscribe_witness:
  "inj exSeed \<and> csSubscribeError exChain500 = None
   \<and> exPay500Change \<in> set (csHistory exChain500)
   \<and> exSeed 500 \<in> set (changeAddrs exPay500Change)
   \<and> numInitialKeys testing div 2 \<le> 500 \<and> 500 < numInitialKeys testing
   \<and> numInitialKeys testing < maxScanKeys testing
   \<and> (\<exists>s1 numKeys1 s2 numKeys2.
         scan exTypes (numInitialKeys testing) (maxScanKeys testing) exChain500
             (newSeedScanner exSeed) =
           scanLoop exTypes (maxScanKeys testing) exChain500 s1 numKeys1 [CallSubscribe]
         \<and> scanLoop exTypes (maxScanKeys testing) exChain500 s1 numKeys1 [CallSubscribe] =
             (if largestIndexSeen s2 < length (skeys s2) div 2
              then Some (None, s2, [CallSubscribe, CallSubscribe, CallUnsubscribe])
              else scanLoop exTypes (maxScanKeys testing) exChain500 s2 numKeys2
                     [CallSubscribe, CallSubscribe]))
   \<and> scanOutcome (scan exTypes 2 1000 exChain (newSeedScanner exSeed)) =
       Some (None, 14, 5, [CallSubscribe, CallSubscribe, CallSubscribe, CallUnsubscribe])"
proof -
  have a: "csSubscribeError exChain500 = None"
    "exPay500Change \<in> set (csHistory exChain500)"
    by (simp_all add: exChain500_def)
  have b: "exSeed 500 \<in> set (changeAddrs exPay500Change)"
    by (simp add: exPay500Change_def changeAddrs_def txnAddrs_def exSeed_def)
  have c: "numInitialKeys testing div 2 \<le> 500" "500 < numInitialKeys testing"
    "numInitialKeys testing < maxScanKeys testing"
    by simp_all
  from C5_resubscribes_without_unsubscribe[OF exSeed_inj a(1) a(2) b c(1) c(2) c(3), of exTypes]
  show ?thesis using exSeed_inj a b c exScan_two_keys by simp
qed

section \<open>The claim output of a siafund input\<close>

lemma applyHistory_append:
  "applyHistory T w tx (xs @ ys) =
     (case applyHistory T w tx xs of
        (w1, Inl err) \<Rightarrow> (w1, Inl err)
      | (w1, Inr tx1) \<Rightarrow> applyHistory T w1 tx1 ys)"
  by (induction xs arbitrary: w tx) (auto split: prod.splits sum.splits)

lemma applyTransactions_append:
  "applyTransactions T w tx block (xs @ ys) =
     (case applyTransactions T w tx block xs of
        (w1, Inl err) \<Rightarrow> (w1, Inl err)
      | (w1, Inr tx1) \<Rightarrow> applyTransactions T w1 tx1 block ys)"
  by (induction xs arbitrary: w tx) (auto split: prod.splits sum.splits)

lemma applyTransaction_height:
  "applyTransaction T w tx block txn = (w', r) \<Longrightarrow> consensusSetHeight w' = consensusSetHeight w"
  unfolding applyTransaction_def
  by (auto split: sum.splits prod.splits if_splits simp: appendProcessed_def)

lemma applyTransaction_length:
  "applyTransaction T w tx block txn = (w', r) \<Longrightarrow>
     length (processedTransactions w) \<le> length (processedTransactions w')"
  unfolding applyTransaction_def
  by (auto split: sum.splits prod.splits if_splits simp: appendProcessed_def)

lemma applyTransactions_length:
  "applyTransactions T w tx block txns = (w', r) \<Longrightarrow>
     length (processedTransactions w) \<le> length (processedTransactions w')"
proof (induction txns arbitrary: w tx)
  case Nil then show ?case by simp
next
  case (Cons t ts)
  obtain w1 r1 where s: "applyTransaction T w tx block t = (w1, r1)"
    by (cases "applyTransaction T w tx block t")
  note l = applyTransaction_length[OF s]
  show ?case
  proof (cases r1)
    case (Inl err)
    with Cons.prems s l show ?thesis by simp
  next
    case (Inr tx1)
    with Cons.prems s have "applyTransactions T w1 tx1 block ts = (w', r)" by simp
    from Cons.IH[OF this] l show ?thesis by simp
  qed
qed

lemma applyBlock_length:
  "applyBlock T w tx block = (w', r) \<Longrightarrow>
     length (processedTransactions w) \<le> length (processedTransactions w')"
  unfolding applyBlock_def Let_def
  by (auto split: sum.splits prod.splits if_splits dest!: applyTransactions_length
      simp: appendProcessed_def)

lemma applyHistory_length:
  "applyHistory T w tx blocks = (w', r) \<Longrightarrow>
     length (processedTransactions w) \<le> length (processedTransactions w')"
proof (induction blocks arbitrary: w tx)
  case Nil then show ?case by simp
next
  case (Cons b bs)
  obtain w1 r1 where s: "applyBlock T w tx b = (w1, r1)" by (cases "applyBlock T w tx b")
  note l = applyBlock_length[OF s]
  show ?case
  proof (cases r1)
    case (Inl err)
    with Cons.prems s l show ?thesis by simp
  next
    case (Inr tx1)
    with Cons.prems s have "applyHistory T w1 tx1 bs = (w', r)" by simp
    from Cons.IH[OF this] l show ?thesis by simp
  qed
qed

text \<open>A relevant transaction that is processed without error: what is appended.\<close>

lemma applyTransaction_relevant_claim:
  assumes ok: "applyTransaction T w tx block txn = (w', Inr tx')"
    and rel: "specRelevant w txn"
    and j: "j < length (SiafundInputs txn)"
    and s: "dbGetHistoricClaimStart tx' (sfiParentID (SiafundInputs txn ! j)) = Inr s"
    and v: "dbGetHistoricOutput tx' (sfiParentID (SiafundInputs txn ! j)) = Inr v"
  shows "\<exists>pt. processedTransactions w' = processedTransactions w @ [pt]
           \<and> ptTransaction pt = txn
           \<and> ptTransactionID pt = TransactionID T txn
           \<and> ptOutputs pt ! (length (SiacoinOutputs txn) + j) =
               \<lparr>poFundType = SpecifierClaimOutput,
                poMaturityHeight = consensusSetHeight w + MaturityDelay T,
                poWalletAddress =
                  isWalletAddress w (UnlockHash (sfiUnlockConditions (SiafundInputs txn ! j))),
                poRelatedAddress = sfiClaimUnlockHash (SiafundInputs txn ! j),
                poValue = (siafundPool w - s) * v\<rparr>
           \<and> (s \<le> siafundPool w \<longrightarrow>
                int (poValue (ptOutputs pt ! (length (SiacoinOutputs txn) + j))) =
                  (int (siafundPool w) - int s) * int v)"
proof -
  from applyTransaction_relevant[OF ok] rel obtain pt where
    ap: "processedTransactions w' = processedTransactions w @ [pt]" by blast
  then have ne: "processedTransactions w' \<noteq> processedTransactions w" by simp
  from applyTransaction_appended[OF ok ne] ap
  have "ptTransaction pt = txn \<and> ptTransactionID pt = TransactionID T txn"
    by (auto simp: appendProcessed_def)
  with applyTransaction_claim_output[OF ok ap j s v] ap show ?thesis by blast
qed

text \<open>
  Claim C7 as stated fails when the pool is below the claim start: with pool
  \<open>100\<close>, claim start \<open>400\<close> and value \<open>3\<close> the history engine appends a claim output
  of value \<open>0\<close> (the subtraction of currencies saturates), while \<open>(p - s) * v\<close> in
  integer arithmetic is \<open>-900\<close>.
\<close>

theorem C7_pool_below_claim_start_counterexample:
  "applyHistory exTypes exUnderWallet exClaimDB [exClaimBlock] =
     (appendProcessed (exUnderWallet\<lparr>consensusSetHeight := 6\<rparr>) exUnderPT, Inr exClaimDB)
   \<and> processedTransactions (fst (applyHistory exTypes exUnderWallet exClaimDB [exClaimBlock])) =
       processedTransactions exUnderWallet @ [exUnderPT]
   \<and> specRelevant exUnderWallet exClaimTxn
   \<and> siafundPool exUnderWallet = 100
   \<and> dbGetHistoricClaimStart exClaimDB (sfiParentID (SiafundInputs exClaimTxn ! 0)) = Inr 400
   \<and> dbGetHistoricOutput exClaimDB (sfiParentID (SiafundInputs exClaimTxn ! 0)) = Inr 3
   \<and> poFundType (ptOutputs exUnderPT ! 0) = SpecifierClaimOutput
   \<and> int (poValue (ptOutputs exUnderPT ! 0)) \<noteq> (int 100 - int 400) * int 3"
  by (simp add: exClaimBlock_def exUnderWallet_def exUnderPT_def exClaimDB_def exClaimTxn_def
      ex_defs run_defs Sub_def Mul_def siacoinOutputPO_def siafundOutputPO_def specRelevant_def)

text \<open>
  Claim C7, amended. For every relevant transaction that the history engine
  processes without a KV error, with a siafund input whose historic claim start
  is \<open>s\<close> and whose spent value is \<open>v\<close>, when the siafund pool is \<open>p\<close>: the engine
  appends a processed transaction for it, whose output for that input (it
  follows the siacoin outputs, in the order of the siafund inputs) has fund type
  \<open>ClaimOutput\<close>, maturity height \<open>consensusSetHeight + MaturityDelay\<close>, the input's
  claim unlock hash as related address, and as value the currency
  \<open>(p - s) * v\<close>; for \<open>s \<le> p\<close> this is exactly the integer \<open>(p - s) * v\<close>, for \<open>s > p\<close>
  the subtraction saturates and the value is \<open>0\<close>. The first part states this
  for the body of the loop over the transactions, the second for
  \<open>applyHistory\<close> and the last transaction of the last applied block.
\<close>

theorem C7_claim_output:
  "(applyTransaction T w tx block txn = (w', Inr tx') \<longrightarrow>
    specRelevant w txn \<longrightarrow>
    j < length (SiafundInputs txn) \<longrightarrow>
    dbGetHistoricClaimStart tx' (sfiParentID (SiafundInputs txn ! j)) = Inr s \<longrightarrow>
    dbGetHistoricOutput tx' (sfiParentID (SiafundInputs txn ! j)) = Inr v \<longrightarrow>
      (\<exists>pt. processedTransactions w' = processedTransactions w @ [pt]
         \<and> ptTransaction pt = txn
         \<and> ptTransactionID pt = TransactionID T txn
         \<and> ptOutputs pt ! (length (SiacoinOutputs txn) + j) =
             \<lparr>poFundType = SpecifierClaimOutput,
              poMaturityHeight = consensusSetHeight w + MaturityDelay T,
              poWalletAddress =
                isWalletAddress w (UnlockHash (sfiUnlockConditions (SiafundInputs txn ! j))),
              poRelatedAddress = sfiClaimUnlockHash (SiafundInputs txn ! j),
              poValue = (siafundPool w - s) * v\<rparr>
         \<and> (s \<le> siafundPool w \<longrightarrow>
              int (poValue (ptOutputs pt ! (length (SiacoinOutputs txn) + j))) =
                (int (siafundPool w) - int s) * int v)
         \<and> (siafundPool w < s \<longrightarrow>
              poValue (ptOutputs pt ! (length (SiacoinOutputs txn) + j)) = 0)))
   \<and> (applyHistory T wa txa (blocks @ [blk]) = (wh, Inr txh) \<longrightarrow>
      Transactions blk = txns @ [txn] \<longrightarrow>
      specRelevant wa txn \<longrightarrow>
      j < length (SiafundInputs txn) \<longrightarrow>
      dbGetHistoricClaimStart txh (sfiParentID (SiafundInputs txn ! j)) = Inr s \<longrightarrow>
      dbGetHistoricOutput txh (sfiParentID (SiafundInputs txn ! j)) = Inr v \<longrightarrow>
        length (processedTransactions wa) < length (processedTransactions wh)
        \<and> siafundPool wh = siafundPool wa
        \<and> ptTransaction (last (processedTransactions wh)) = txn
        \<and> ptTransactionID (last (processedTransactions wh)) = TransactionID T txn
        \<and> ptOutputs (last (processedTransactions wh)) ! (length (SiacoinOutputs txn) + j) =
             \<lparr>poFundType = SpecifierClaimOutput,
              poMaturityHeight = consensusSetHeight wh + MaturityDelay T,
              poWalletAddress =
                isWalletAddress wh (UnlockHash (sfiUnlockConditions (SiafundInputs txn ! j))),
              poRelatedAddress = sfiClaimUnlockHash (SiafundInputs txn ! j),
              poValue = (siafundPool wa - s) * v\<rparr>
        \<and> (s \<le> siafundPool wa \<longrightarrow>
              int (poValue (ptOutputs (last (processedTransactions wh))
                     ! (length (SiacoinOutputs txn) + j))) =
                (int (siafundPool wa) - int s) * int v))"
proof (intro conjI impI)
  assume ok: "applyTransaction T w tx block txn = (w', Inr tx')"
    and rel: "specRelevant w txn"
    and j: "j < length (SiafundInputs txn)"
    and s: "dbGetHistoricClaimStart tx' (sfiParentID (SiafundInputs txn ! j)) = Inr s"
    and v: "dbGetHistoricOutput tx' (sfiParentID (SiafundInputs txn ! j)) = Inr v"
  from applyTransaction_relevant_claim[OF ok rel j s v] obtain pt where
    pt: "processedTransactions w' = processedTransactions w @ [pt]"
      "ptTransaction pt = txn" "ptTransactionID pt = TransactionID T txn"
      "ptOutputs pt ! (length (SiacoinOutputs txn) + j) =
             \<lparr>poFundType = SpecifierClaimOutput,
              poMaturityHeight = consensusSetHeight w + MaturityDelay T,
              poWalletAddress =
                isWalletAddress w (UnlockHash (sfiUnlockConditions (SiafundInputs txn ! j))),
              poRelatedAddress = sfiClaimUnlockHash (SiafundInputs txn ! j),
              poValue = (siafundPool w - s) * v\<rparr>"
      "s \<le> siafundPool w \<longrightarrow>
              int (poValue (ptOutputs pt ! (length (SiacoinOutputs txn) + j))) =
                (int (siafundPool w) - int s) * int v"
    by blast
  from pt(4) have "siafundPool w < s \<longrightarrow>
      poValue (ptOutputs pt ! (length (SiacoinOutputs txn) + j)) = 0" by simp
  with pt show "\<exists>pt. processedTransactions w' = processedTransactions w @ [pt]
         \<and> ptTransaction pt = txn
         \<and> ptTransactionID pt = TransactionID T txn
         \<and> ptOutputs pt ! (length (SiacoinOutputs txn) + j) =
             \<lparr>poFundType = SpecifierClaimOutput,
              poMaturityHeight = consensusSetHeight w + MaturityDelay T,
              poWalletAddress =
                isWalletAddress w (UnlockHash (sfiUnlockConditions (SiafundInputs txn ! j))),
              poRelatedAddress = sfiClaimUnlockHash (SiafundInputs txn ! j),
              poValue = (siafundPool w - s) * v\<rparr>
         \<and> (s \<le> siafundPool w \<longrightarrow>
              int (poValue (ptOutputs pt ! (length (SiacoinOutputs txn) + j))) =
                (int (siafundPool w) - int s) * int v)
         \<and> (siafundPool w < s \<longrightarrow>
              poValue (ptOutputs pt ! (length (SiacoinOutputs txn) + j)) = 0)"
    by blast
next
  assume run: "applyHistory T wa txa (blocks @ [blk]) = (wh, Inr txh)"
    and txs: "Transactions blk = txns @ [txn]"
    and rel: "specRelevant wa txn"
    and j: "j < length (SiafundInputs txn)"
    and s: "dbGetHistoricClaimStart txh (sfiParentID (SiafundInputs txn ! j)) = Inr s"
    and v: "dbGetHistoricOutput txh (sfiParentID (SiafundInputs txn ! j)) = Inr v"
  from run obtain w1 tx1 where
    pre: "applyHistory T wa txa blocks = (w1, Inr tx1)"
    and bl: "applyBlock T w1 tx1 blk = (wh, Inr txh)"
    unfolding applyHistory_append
    by (auto split: prod.splits sum.splits)
  define w2 where "w2 = w1\<lparr>consensusSetHeight := consensusSetHeight w1 + 1\<rparr>"
  from bl obtain relv tx2 where
    mp: "applyMinerPayouts T w2 tx1 blk 0 (MinerPayouts blk) False = Inr (relv, tx2)"
    and ts: "applyTransactions T
            (if relv then appendProcessed w2 (minerPT T w2 blk) else w2)
            tx2 blk (txns @ [txn]) = (wh, Inr txh)"
    unfolding applyBlock_def Let_def w2_def txs
    by (auto split: sum.splits prod.splits)
  define w3 where "w3 = (if relv then appendProcessed w2 (minerPT T w2 blk) else w2)"
  from ts obtain w4 tx4 where
    tp: "applyTransactions T w3 tx2 blk txns = (w4, Inr tx4)"
    and last: "applyTransaction T w4 tx4 blk txn = (wh, Inr txh)"
    unfolding applyTransactions_append w3_def
    by (auto split: prod.splits sum.splits)
  have st: "sameStatic wa w4"
  proof -
    have "sameStatic wa w1" by (rule applyHistory_static[OF pre])
    moreover have "sameStatic w1 w3"
      by (simp add: w3_def w2_def sameStatic_def appendProcessed_def)
    moreover have "sameStatic w3 w4" by (rule applyTransactions_static[OF tp])
    ultimately show ?thesis by (blast intro: sameStatic_trans)
  qed
  then have k: "keys w4 = keys wa" and p: "siafundPool w4 = siafundPool wa"
    by (simp_all add: sameStatic_def)
  from rel have rel4: "specRelevant w4 txn" by (simp add: specRelevant_keys[OF k])
  from applyTransaction_relevant_claim[OF last rel4 j s v] obtain pt where
    pt: "processedTransactions wh = processedTransactions w4 @ [pt]"
      "ptTransaction pt = txn" "ptTransactionID pt = TransactionID T txn"
      "ptOutputs pt ! (length (SiacoinOutputs txn) + j) =
             \<lparr>poFundType = SpecifierClaimOutput,
              poMaturityHeight = consensusSetHeight w4 + MaturityDelay T,
              poWalletAddress =
                isWalletAddress w4 (UnlockHash (sfiUnlockConditions (SiafundInputs txn ! j))),
              poRelatedAddress = sfiClaimUnlockHash (SiafundInputs txn ! j),
              poValue = (siafundPool w4 - s) * v\<rparr>"
      "s \<le> siafundPool w4 \<longrightarrow>
              int (poValue (ptOutputs pt ! (length (SiacoinOutputs txn) + j))) =
                (int (siafundPool w4) - int s) * int v"
    by blast
  have h: "consensusSetHeight wh = consensusSetHeight w4"
    by (rule applyTransaction_height[OF last])
  have sh: "sameStatic w4 wh" by (rule applyTransaction_static[OF last])
  then have kh: "keys wh = keys w4" and ph: "siafundPool wh = siafundPool w4"
    by (simp_all add: sameStatic_def)
  have iw: "isWalletAddress wh = isWalletAddress w4" by (rule isWalletAddress_cong[OF kh])
  have len: "length (processedTransactions wa) \<le> length (processedTransactions w4)"
  proof -
    have "length (processedTransactions wa) \<le> length (processedTransactions w1)"
      by (rule applyHistory_length[OF pre])
    moreover have "length (processedTransactions w1) \<le> length (processedTransactions w3)"
      by (simp add: w3_def w2_def appendProcessed_def)
    moreover have "length (processedTransactions w3) \<le> length (processedTransactions w4)"
      by (rule applyTransactions_length[OF tp])
    ultimately show ?thesis by simp
  qed
  have l: "last (processedTransactions wh) = pt" by (simp add: pt(1))
  show "length (processedTransactions wa) < length (processedTransactions wh)"
    using len pt(1) by simp
  show "siafundPool wh = siafundPool wa" using p ph by simp
  show "ptTransaction (last (processedTransactions wh)) = txn" using l pt(2) by simp
  show "ptTransactionID (last (processedTransactions wh)) = TransactionID T txn"
    using l pt(3) by simp
  show "ptOutputs (last (processedTransactions wh)) ! (length (SiacoinOutputs txn) + j) =
             \<lparr>poFundType = SpecifierClaimOutput,
              poMaturityHeight = consensusSetHeight wh + MaturityDelay T,
              poWalletAddress =
                isWalletAddress wh (UnlockHash (sfiUnlockConditions (SiafundInputs txn ! j))),
              poRelatedAddress = sfiClaimUnlockHash (SiafundInputs txn ! j),
              poValue = (siafundPool wa - s) * v\<rparr>"
    using pt(4) by (simp add: l h iw p)
  assume "s \<le> siafundPool wa"
  with pt(5) p l
  show "int (poValue (ptOutputs (last (processedTransactions wh))
                     ! (length (SiacoinOutputs txn) + j))) =
                (int (siafundPool wa) - int s) * int v"
    by simp
qed

lemma exClaimHistory_runs:
  "applyHistory exTypes exClaimWallet exClaimDB ([] @ [exClaimBlock]) =
     (appendProcessed (exClaimWallet\<lparr>consensusSetHeight := 6\<rparr>) exClaimPT6, Inr exClaimDB)"
  by (simp add: exClaimBlock_def exClaimWallet_def exClaimPT6_def exClaimDB_def exClaimTxn_def
      ex_defs run_defs Sub_def Mul_def siacoinOutputPO_def siafundOutputPO_def)

theorem C7_claim_output_witness:
  "applyTransaction exTypes exClaimWallet exClaimDB exReceiveBlock exClaimTxn =
     (appendProcessed exClaimWallet exClaimPT, Inr exClaimDB)
   \<and> applyHistory exTypes exClaimWallet exClaimDB ([] @ [exClaimBlock]) =
     (appendProcessed (exClaimWallet\<lparr>consensusSetHeight := 6\<rparr>) exClaimPT6, Inr exClaimDB)
   \<and> Transactions exClaimBlock = [] @ [exClaimTxn]
   \<and> specRelevant exClaimWallet exClaimTxn
   \<and> (0::nat) < length (SiafundInputs exClaimTxn)
   \<and> siafundPool exClaimWallet = 1000
   \<and> dbGetHistoricClaimStart exClaimDB (sfiParentID (SiafundInputs exClaimTxn ! 0)) = Inr 400
   \<and> dbGetHistoricOutput exClaimDB (sfiParentID (SiafundInputs exClaimTxn ! 0)) = Inr 3
   \<and> processedTransactions
         (fst (applyTransaction exTypes exClaimWallet exClaimDB exReceiveBlock exClaimTxn)) =
       processedTransactions exClaimWallet @ [exClaimPT]
   \<and> ptOutputs exClaimPT ! (length (SiacoinOutputs exClaimTxn) + 0) =
       \<lparr>poFundType = SpecifierClaimOutput, poMaturityHeight = 149,
        poWalletAddress = True, poRelatedAddress = 9, poValue = 1800\<rparr>
   \<and> length (processedTransactions exClaimWallet) <
       length (processedTransactions
                 (fst (applyHistory exTypes exClaimWallet exClaimDB ([] @ [exClaimBlock]))))
   \<and> ptTransaction
         (last (processedTransactions
                  (fst (applyHistory exTypes exClaimWallet exClaimDB ([] @ [exClaimBlock]))))) =
       exClaimTxn
   \<and> ptOutputs
         (last (processedTransactions
                  (fst (applyHistory exTypes exClaimWallet exClaimDB ([] @ [exClaimBlock])))))
         ! (length (SiacoinOutputs exClaimTxn) + 0) =
       \<lparr>poFundType = SpecifierClaimOutput, poMaturityHeight = 150,
        poWalletAddress = True, poRelatedAddress = 9, poValue = 1800\<rparr>"
proof -
  have t: "Transactions exClaimBlock = [] @ [exClaimTxn]" by (simp add: exClaimBlock_def)
  have r: "specRelevant exClaimWallet exClaimTxn"
    by (simp add: specRelevant_def exClaimWallet_def exClaimTxn_def ex_defs run_defs)
  have c: "(0::nat) < length (SiafundInputs exClaimTxn)" by (simp add: exClaimTxn_def)
  have d: "dbGetHistoricClaimStart exClaimDB (sfiParentID (SiafundInputs exClaimTxn ! 0)) = Inr 400"
    by (simp add: exClaimTxn_def exClaimDB_def dbGetHistoricClaimStart_def)
  have e: "dbGetHistoricOutput exClaimDB (sfiParentID (SiafundInputs exClaimTxn ! 0)) = Inr 3"
    by (simp add: exClaimTxn_def exClaimDB_def dbGetHistoricOutput_def)
  have p: "siafundPool exClaimWallet = 1000" by (simp add: exClaimWallet_def)
  have h: "consensusSetHeight exClaimWallet = 5" by (simp add: exClaimWallet_def)
  have m: "MaturityDelay exTypes = 144" by (simp add: ex_defs)
  have i: "isWalletAddress exClaimWallet
             (UnlockHash (sfiUnlockConditions (SiafundInputs exClaimTxn ! 0)))"
    by (simp add: exClaimWallet_def exClaimTxn_def ex_defs run_defs)
  have u: "sfiClaimUnlockHash (SiafundInputs exClaimTxn ! 0) = 9" by (simp add: exClaimTxn_def)
  note inst = C7_claim_output[where T = exTypes and w = exClaimWallet and tx = exClaimDB
      and block = exReceiveBlock and txn = exClaimTxn
      and w' = "appendProcessed exClaimWallet exClaimPT" and tx' = exClaimDB
      and j = 0 and s = 400 and v = 3
      and wa = exClaimWallet and txa = exClaimDB and blocks = "[]" and blk = exClaimBlock
      and wh = "appendProcessed (exClaimWallet\<lparr>consensusSetHeight := 6\<rparr>) exClaimPT6"
      and txh = exClaimDB and txns = "[]"]
  from inst exClaim_runs exClaimHistory_runs t r c d e
  have A: "\<exists>pt. processedTransactions (appendProcessed exClaimWallet exClaimPT) =
               processedTransactions exClaimWallet @ [pt]
             \<and> ptOutputs pt ! (length (SiacoinOutputs exClaimTxn) + 0) =
               \<lparr>poFundType = SpecifierClaimOutput,
                poMaturityHeight = consensusSetHeight exClaimWallet + MaturityDelay exTypes,
                poWalletAddress = isWalletAddress exClaimWallet
                  (UnlockHash (sfiUnlockConditions (SiafundInputs exClaimTxn ! 0))),
                poRelatedAddress = sfiClaimUnlockHash (SiafundInputs exClaimTxn ! 0),
                poValue = (siafundPool exClaimWallet - 400) * 3\<rparr>"
    by blast
  then have A': "ptOutputs exClaimPT ! (length (SiacoinOutputs exClaimTxn) + 0) =
       \<lparr>poFundType = SpecifierClaimOutput, poMaturityHeight = 149,
        poWalletAddress = True, poRelatedAddress = 9, poValue = 1800\<rparr>"
    using p h m i u by (auto simp: appendProcessed_def)
  let ?wh = "appendProcessed (exClaimWallet\<lparr>consensusSetHeight := 6\<rparr>) exClaimPT6"
  from inst exClaim_runs exClaimHistory_runs t r c d e
  have B: "length (processedTransactions exClaimWallet) < length (processedTransactions ?wh)
        \<and> ptTransaction (last (processedTransactions ?wh)) = exClaimTxn
        \<and> ptOutputs (last (processedTransactions ?wh)) ! (length (SiacoinOutputs exClaimTxn) + 0) =
             \<lparr>poFundType = SpecifierClaimOutput,
              poMaturityHeight = consensusSetHeight ?wh + MaturityDelay exTypes,
              poWalletAddress = isWalletAddress ?wh
                (UnlockHash (sfiUnlockConditions (SiafundInputs exClaimTxn ! 0))),
              poRelatedAddress = sfiClaimUnlockHash (SiafundInputs exClaimTxn ! 0),
              poValue = (siafundPool exClaimWallet - 400) * 3\<rparr>"
    by blast
  have h6: "consensusSetHeight ?wh = 6" by (simp add: appendProcessed_def)
  have i6: "isWalletAddress ?wh
             (UnlockHash (sfiUnlockConditions (SiafundInputs exClaimTxn ! 0)))"
    using i by (simp add: isWalletAddress_def appendProcessed_def)
  from B have B': "ptOutputs (last (processedTransactions ?wh))
                     ! (length (SiacoinOutputs exClaimTxn) + 0) =
       \<lparr>poFundType = SpecifierClaimOutput, poMaturityHeight = 150,
        poWalletAddress = True, poRelatedAddress = 9, poValue = 1800\<rparr>"
    using p h6 m i6 u by simp
  have pa: "processedTransactions (appendProcessed exClaimWallet exClaimPT) =
              processedTransactions exClaimWallet @ [exClaimPT]"
    by (simp add: appendProcessed_def)
  show ?thesis
    using exClaim_runs exClaimHistory_runs t r c d e p A' B B' pa by simp
qed

end
